theory Spec2Isabelle
  imports Main "HOL-Library.Word" "HOL-Library.Signed_Division" "HOL-Library.AList"
begin

section \<open>The market-making engine of src/strategy/autotrader.cc\<close>

text \<open>
  The engine is the class \<open>AutoTrader\<close>: a set of member variables and event handlers
  that mutate them and send commands to the exchange. The model passes the members as a
  record and returns, from each handler, the record after the call together with the list
  of commands sent during the call, in the order they were sent. Log statements have no
  effect on the members or on the commands and are left out.
\<close>

subsection \<open>Machine integers\<close>

text \<open>
  \<open>unsigned long\<close> and \<open>signed long\<close> are 64 bits wide on the platform the trader is built
  for. Both are words of 64 bits: \<open>+\<close>, \<open>-\<close> and \<open>*\<close> wrap around, \<open><\<close>, \<open>\<le>\<close> and
  \<open>div\<close> read the word as unsigned; \<open><s\<close> and \<open>\<le>s\<close> read it in two's complement, and so
  does \<open>long_div\<close>, the division of two \<open>signed long\<close>, which truncates towards zero.
\<close>

type_synonym ulong = "64 word"
type_synonym slong = "64 word"

definition long_div :: "slong \<Rightarrow> slong \<Rightarrow> slong" where
  "long_div a b = word_of_int (sint a sdiv sint b)"

text \<open>
  A \<open>constexpr int\<close> initialised from an \<open>unsigned long\<close> expression and later passed where
  an \<open>unsigned long\<close> is expected: narrowed to 32 bits, then sign-extended.
\<close>

definition through_int :: "ulong \<Rightarrow> ulong" where
  "through_int x = scast (ucast x :: 32 word)"

subsection \<open>Types of the exchange library\<close>

datatype Instrument = FUTURE | ETF

datatype Side = SELL | BUY

datatype Lifespan = FILL_AND_KILL | GOOD_FOR_DAY

text \<open>
  \<open>MAXIMUM_ASK\<close> and \<open>MINIMUM_BID\<close> are constants of the exchange library's header, which
  is not among the sources. Every function that reads them takes them as the parameter
  \<open>lim\<close>, and every theorem holds for all their values.
\<close>

record limits =
  MAXIMUM_ASK :: ulong
  MINIMUM_BID :: ulong

text \<open>The commands an \<open>AutoTrader\<close> sends: \<open>SendInsertOrder\<close>, \<open>SendCancelOrder\<close>,
  \<open>SendHedgeOrder\<close>, with their arguments.\<close>

datatype command =
    InsertOrder ulong Side ulong ulong Lifespan
  | CancelOrder ulong
  | HedgeOrder ulong Side ulong ulong

subsection \<open>Constants of autotrader.cc\<close>

definition MARGIN_BASIS :: slong where
  "MARGIN_BASIS = 7"

definition MAX_ORDER_DEPTH :: slong where
  "MAX_ORDER_DEPTH = 5"

definition POSITION_LIMIT :: slong where
  "POSITION_LIMIT = 100"

definition TICK_SIZE_IN_CENTS :: ulong where
  "TICK_SIZE_IN_CENTS = 100"

definition MIN_BID_NEARST_TICK :: "limits \<Rightarrow> ulong" where
  "MIN_BID_NEARST_TICK lim =
     through_int ((MINIMUM_BID lim + TICK_SIZE_IN_CENTS) div TICK_SIZE_IN_CENTS * TICK_SIZE_IN_CENTS)"

definition MAX_ASK_NEAREST_TICK :: "limits \<Rightarrow> ulong" where
  "MAX_ASK_NEAREST_TICK lim =
     through_int (MAXIMUM_ASK lim div TICK_SIZE_IN_CENTS * TICK_SIZE_IN_CENTS)"

subsection \<open>Orders and the members of the trader\<close>

text \<open>
  Modelled from the spec: the struct \<open>Order\<close> and the member variables of \<open>AutoTrader\<close>
  are declared in autotrader.h, which is not among the sources. The fields of \<open>Order\<close> are
  those of the initialiser \<open>{ MAXIMUM_ASK, 0, 0, false }\<close> and of the accesses in
  autotrader.cc, in that order; prices and volumes are \<open>unsigned long\<close> (the handlers receive
  them as such, and \<open>orderVolume\<close> is cast to \<open>unsigned long\<close> to be stored). The position
  and the two reserved volumes are \<open>signed long\<close>: they are compared with
  \<open>-POSITION_LIMIT\<close>. The two order counts are modelled as \<open>signed long\<close> as well.
  \<open>mMarketMaxBid\<close> and \<open>mMarketMinAsk\<close> are \<open>unsigned long\<close>, as \<open>std::max\<close> and \<open>std::min\<close>
  take them with the result of \<open>MultiplyBasis\<close>.

  \<open>mAsks\<close> and \<open>mBids\<close> map an order id to its \<open>Order\<close>. A map is an association list
  with one entry for each key; the order of the list is the order in which a range-for
  visits the map. \<open>map_of\<close> looks a key up, \<open>AList.update\<close> is the assignment
  \<open>m[k] = v\<close>, \<open>AList.delete\<close> is \<open>erase\<close>.
\<close>

record Order =
  price :: ulong
  remainingVolume :: ulong
  filledVolume :: ulong
  cancelling :: bool

type_synonym order_map = "(ulong \<times> Order) list"

record AutoTrader =
  mNextMessageId :: ulong
  mOrderBookSequence :: ulong
  mMarketMaxBid :: ulong
  mMarketMinAsk :: ulong
  mETFPosition :: slong
  mETFOrderPositionSell :: slong
  mETFOrderPositionBuy :: slong
  mETFOrderAskCount :: slong
  mETFOrderBidCount :: slong
  mAsks :: order_map
  mBids :: order_map

definition MAX_ORDER :: "limits \<Rightarrow> Order" where
  "MAX_ORDER lim = \<lparr>price = MAXIMUM_ASK lim, remainingVolume = 0, filledVolume = 0, cancelling = False\<rparr>"

definition MIN_ORDER :: Order where
  "MIN_ORDER = \<lparr>price = 0, remainingVolume = 0, filledVolume = 0, cancelling = False\<rparr>"

subsection \<open>MultiplyBasis\<close>

text \<open>The third parameter is not read by the body.\<close>

definition MultiplyBasis :: "ulong \<Rightarrow> slong \<Rightarrow> bool \<Rightarrow> ulong" where
  "MultiplyBasis n basis ceil =
     (let d = 10000 + basis
      in 100 * ((n * d) div 1000000))"

subsection \<open>RepriceSellOrders\<close>

text \<open>
  The locals of the scan over \<open>mAsks\<close>. The pointer \<open>largestOrder\<close> is either the address of
  the sentinel \<open>MIN_ORDER\<close> or the address of the entry whose key is \<open>largestOrderId\<close>: the
  two are assigned together. The model keeps the pointee's value in \<open>largestOrder\<close>; the
  scan visits each entry once and never writes to an entry after it has pointed
  \<open>largestOrder\<close> at it, so the value read through the pointer is this one. The write
  through the pointer after the scan goes to the entry of key \<open>largestOrderId\<close>.
\<close>

record sell_locals =
  largestOrderId :: ulong
  largestOrder :: Order
  askAlreadyExists :: bool

text \<open>One pass of the body of the range-for: the entry after the pass, the commands sent,
  the locals after the pass.\<close>

definition sell_body ::
  "ulong \<Rightarrow> ulong \<times> Order \<Rightarrow> sell_locals \<Rightarrow> (ulong \<times> Order) \<times> command list \<times> sell_locals" where
  "sell_body newAskPrice entry l =
     (let orderId = fst entry; order = snd entry
      in if cancelling order then (entry, [], l)
         else
           let l1 = (if price order = newAskPrice then l\<lparr>askAlreadyExists := True\<rparr> else l)
           in if price order < newAskPrice
              then ((orderId, order\<lparr>cancelling := True\<rparr>), [CancelOrder orderId], l1)
              else if price (largestOrder l1) \<le> price order
              then (entry, [], l1\<lparr>largestOrderId := orderId, largestOrder := order\<rparr>)
              else (entry, [], l1))"

fun sell_loop ::
  "ulong \<Rightarrow> order_map \<Rightarrow> sell_locals \<Rightarrow> order_map \<times> command list \<times> sell_locals" where
  "sell_loop newAskPrice [] l = ([], [], l)"
| "sell_loop newAskPrice (entry # rest) l =
     (let (entry', sent, l1) = sell_body newAskPrice entry l;
          (rest', sent', l2) = sell_loop newAskPrice rest l1
      in (entry' # rest', sent @ sent', l2))"

text \<open>The locals before the scan: \<open>largestOrderId = 0\<close>, \<open>largestOrder = &MIN_ORDER\<close>,
  \<open>askAlreadyExists = false\<close>.\<close>

definition sell_start :: sell_locals where
  "sell_start = \<lparr>largestOrderId = 0, largestOrder = MIN_ORDER, askAlreadyExists = False\<rparr>"

definition mark_cancelling :: "ulong \<Rightarrow> order_map \<Rightarrow> order_map" where
  "mark_cancelling k m = AList.map_entry k (\<lambda>order. order\<lparr>cancelling := True\<rparr>) m"

definition new_ask_price :: "limits \<Rightarrow> ulong list \<Rightarrow> AutoTrader \<Rightarrow> ulong" where
  "new_ask_price lim askPrices s =
     (if askPrices ! 0 \<noteq> 0
      then max (mMarketMaxBid s + 100) (MultiplyBasis (askPrices ! 0) MARGIN_BASIS True)
      else MAXIMUM_ASK lim)"

definition RepriceSellOrders ::
  "limits \<Rightarrow> ulong list \<Rightarrow> ulong list \<Rightarrow> AutoTrader \<Rightarrow> AutoTrader \<times> command list" where
  "RepriceSellOrders lim askPrices askVolumes s =
     (let newAskPrice = new_ask_price lim askPrices s;
          (asks1, sent1, l) = sell_loop newAskPrice (mAsks s) sell_start;
          evict = (largestOrderId l \<noteq> 0 \<and> \<not> cancelling (largestOrder l)
                   \<and> MAX_ORDER_DEPTH - 1 \<le>s mETFOrderAskCount s);
          asks2 = (if evict then mark_cancelling (largestOrderId l) asks1 else asks1);
          sent2 = (if evict then sent1 @ [CancelOrder (largestOrderId l)] else sent1);
          orderVolume = long_div (mETFPosition s + POSITION_LIMIT) MAX_ORDER_DEPTH
      in if askAlreadyExists l
            \<or> (mETFPosition s - mETFOrderPositionSell s - orderVolume) <s - POSITION_LIMIT
            \<or> MAX_ORDER_DEPTH \<le>s mETFOrderAskCount s
            \<or> askPrices ! 0 = 0
         then (s\<lparr>mAsks := asks2\<rparr>, sent2)
         else
           let orderId = mNextMessageId s
           in (s\<lparr>mNextMessageId := mNextMessageId s + 1,
                 mETFOrderAskCount := mETFOrderAskCount s + 1,
                 mETFOrderPositionSell := mETFOrderPositionSell s + orderVolume,
                 mAsks := AList.update orderId
                    \<lparr>price = newAskPrice, remainingVolume = orderVolume,
                     filledVolume = 0, cancelling = False\<rparr> asks2\<rparr>,
               sent2 @ [InsertOrder orderId SELL newAskPrice orderVolume GOOD_FOR_DAY]))"

subsection \<open>RepriceBuyOrders\<close>

record buy_locals =
  smallestOrderId :: ulong
  smallestOrder :: Order
  bidAlreadyExists :: bool

definition buy_body ::
  "ulong \<Rightarrow> ulong \<times> Order \<Rightarrow> buy_locals \<Rightarrow> (ulong \<times> Order) \<times> command list \<times> buy_locals" where
  "buy_body newBidPrice entry l =
     (let orderId = fst entry; order = snd entry
      in if cancelling order then (entry, [], l)
         else
           let l1 = (if price order = newBidPrice then l\<lparr>bidAlreadyExists := True\<rparr> else l)
           in if newBidPrice < price order
              then ((orderId, order\<lparr>cancelling := True\<rparr>), [CancelOrder orderId], l1)
              else if price order \<le> price (smallestOrder l1)
              then (entry, [], l1\<lparr>smallestOrderId := orderId, smallestOrder := order\<rparr>)
              else (entry, [], l1))"

fun buy_loop ::
  "ulong \<Rightarrow> order_map \<Rightarrow> buy_locals \<Rightarrow> order_map \<times> command list \<times> buy_locals" where
  "buy_loop newBidPrice [] l = ([], [], l)"
| "buy_loop newBidPrice (entry # rest) l =
     (let (entry', sent, l1) = buy_body newBidPrice entry l;
          (rest', sent', l2) = buy_loop newBidPrice rest l1
      in (entry' # rest', sent @ sent', l2))"

definition buy_start :: "limits \<Rightarrow> buy_locals" where
  "buy_start lim = \<lparr>smallestOrderId = 0, smallestOrder = MAX_ORDER lim, bidAlreadyExists = False\<rparr>"

definition new_bid_price :: "ulong list \<Rightarrow> AutoTrader \<Rightarrow> ulong" where
  "new_bid_price bidPrices s =
     (if bidPrices ! 0 \<noteq> 0
      then min (mMarketMinAsk s - 100) (MultiplyBasis (bidPrices ! 0) (- MARGIN_BASIS) False)
      else 0)"

definition RepriceBuyOrders ::
  "limits \<Rightarrow> ulong list \<Rightarrow> ulong list \<Rightarrow> AutoTrader \<Rightarrow> AutoTrader \<times> command list" where
  "RepriceBuyOrders lim bidPrices bidVolumes s =
     (let newBidPrice = new_bid_price bidPrices s;
          (bids1, sent1, l) = buy_loop newBidPrice (mBids s) (buy_start lim);
          evict = (smallestOrderId l \<noteq> 0 \<and> \<not> cancelling (smallestOrder l)
                   \<and> MAX_ORDER_DEPTH - 1 \<le>s mETFOrderBidCount s);
          bids2 = (if evict then mark_cancelling (smallestOrderId l) bids1 else bids1);
          sent2 = (if evict then sent1 @ [CancelOrder (smallestOrderId l)] else sent1);
          orderVolume = long_div (POSITION_LIMIT - mETFPosition s) MAX_ORDER_DEPTH
      in if bidAlreadyExists l
            \<or> POSITION_LIMIT <s (mETFPosition s + mETFOrderPositionBuy s + orderVolume)
            \<or> MAX_ORDER_DEPTH \<le>s mETFOrderBidCount s
            \<or> bidPrices ! 0 = 0
         then (s\<lparr>mBids := bids2\<rparr>, sent2)
         else
           let orderId = mNextMessageId s
           in (s\<lparr>mNextMessageId := mNextMessageId s + 1,
                 mETFOrderBidCount := mETFOrderBidCount s + 1,
                 mETFOrderPositionBuy := mETFOrderPositionBuy s + orderVolume,
                 mBids := AList.update orderId
                    \<lparr>price = newBidPrice, remainingVolume = orderVolume,
                     filledVolume = 0, cancelling = False\<rparr> bids2\<rparr>,
               sent2 @ [InsertOrder orderId BUY newBidPrice orderVolume GOOD_FOR_DAY]))"

subsection \<open>OrderBookMessageHandler\<close>

definition OrderBookMessageHandler ::
  "limits \<Rightarrow> Instrument \<Rightarrow> ulong \<Rightarrow> ulong list \<Rightarrow> ulong list \<Rightarrow> ulong list \<Rightarrow> ulong list
     \<Rightarrow> AutoTrader \<Rightarrow> AutoTrader \<times> command list" where
  "OrderBookMessageHandler lim instrument sequenceNumber askPrices askVolumes bidPrices bidVolumes s =
     (if instrument \<noteq> FUTURE
      then (s\<lparr>mMarketMaxBid := bidPrices ! 0,
              mMarketMinAsk := (if askPrices ! 0 \<noteq> 0 then askPrices ! 0 else MAXIMUM_ASK lim)\<rparr>, [])
      else if sequenceNumber \<le> mOrderBookSequence s then (s, [])
      else
        let s1 = s\<lparr>mOrderBookSequence := sequenceNumber\<rparr>;
            (s2, sentSell) = RepriceSellOrders lim askPrices askVolumes s1;
            (s3, sentBuy) = RepriceBuyOrders lim bidPrices bidVolumes s2
        in (s3, sentSell @ sentBuy))"

subsection \<open>OrderStatusMessageHandler and ErrorMessageHandler\<close>

text \<open>
  \<open>status_on_side isSellOrder order\<close> is the handler from the line that binds \<open>order\<close> on:
  \<open>order\<close> is the entry of \<open>clientOrderId\<close> in \<open>sideMap\<close>, which is \<open>mAsks\<close> when
  \<open>isSellOrder\<close> and \<open>mBids\<close> otherwise. \<open>dFilled\<close> and \<open>dRemaining\<close> are differences of
  two \<open>unsigned long\<close>.
\<close>

definition status_on_side ::
  "limits \<Rightarrow> bool \<Rightarrow> Order \<Rightarrow> ulong \<Rightarrow> ulong \<Rightarrow> ulong \<Rightarrow> AutoTrader \<Rightarrow> AutoTrader \<times> command list" where
  "status_on_side lim isSellOrder order clientOrderId fillVolume remainingVolume' s =
     (let dFilled = fillVolume - filledVolume order;
          (s1, sent) =
            (if 0 < dFilled
             then (s\<lparr>mETFPosition := mETFPosition s + (if isSellOrder then - dFilled else dFilled),
                     mNextMessageId := mNextMessageId s + 1\<rparr>,
                   [HedgeOrder (mNextMessageId s)
                      (if isSellOrder then BUY else SELL)
                      (if isSellOrder then MAX_ASK_NEAREST_TICK lim else MIN_BID_NEARST_TICK lim)
                      dFilled])
             else (s, []));
          dRemaining = remainingVolume order - remainingVolume';
          s2 = (if isSellOrder
                then s1\<lparr>mETFOrderPositionSell := mETFOrderPositionSell s1 - dRemaining\<rparr>
                else s1\<lparr>mETFOrderPositionBuy := mETFOrderPositionBuy s1 - dRemaining\<rparr>)
      in if 0 < remainingVolume'
         then
           let order' = order\<lparr>remainingVolume := remainingVolume', filledVolume := fillVolume\<rparr>
           in (if isSellOrder
               then s2\<lparr>mAsks := AList.update clientOrderId order' (mAsks s2)\<rparr>
               else s2\<lparr>mBids := AList.update clientOrderId order' (mBids s2)\<rparr>, sent)
         else
           (if isSellOrder
            then s2\<lparr>mETFOrderAskCount := mETFOrderAskCount s2 - 1,
                    mAsks := AList.delete clientOrderId (mAsks s2)\<rparr>
            else s2\<lparr>mETFOrderBidCount := mETFOrderBidCount s2 - 1,
                    mBids := AList.delete clientOrderId (mBids s2)\<rparr>, sent))"

definition OrderStatusMessageHandler ::
  "limits \<Rightarrow> ulong \<Rightarrow> ulong \<Rightarrow> ulong \<Rightarrow> slong \<Rightarrow> AutoTrader \<Rightarrow> AutoTrader \<times> command list" where
  "OrderStatusMessageHandler lim clientOrderId fillVolume remainingVolume' fees s =
     (case map_of (mAsks s) clientOrderId of
        Some order \<Rightarrow> status_on_side lim True order clientOrderId fillVolume remainingVolume' s
      | None \<Rightarrow>
          (case map_of (mBids s) clientOrderId of
             Some order \<Rightarrow> status_on_side lim False order clientOrderId fillVolume remainingVolume' s
           | None \<Rightarrow> (s, [])))"

definition ErrorMessageHandler ::
  "limits \<Rightarrow> ulong \<Rightarrow> string \<Rightarrow> AutoTrader \<Rightarrow> AutoTrader \<times> command list" where
  "ErrorMessageHandler lim clientOrderId errorMessage s =
     (if clientOrderId \<noteq> 0
         \<and> (map_of (mAsks s) clientOrderId \<noteq> None \<or> map_of (mBids s) clientOrderId \<noteq> None)
      then OrderStatusMessageHandler lim clientOrderId 0 0 0 s
      else (s, []))"

subsection \<open>Events\<close>

text \<open>
  The events the trader receives, one constructor for each handler whose body is in
  autotrader.cc. The handlers of \<open>OrderFilled\<close>, \<open>HedgeFilled\<close> and \<open>TradeTicks\<close> only write
  to the log. \<open>deliver\<close> calls the handler of an event; \<open>run\<close> delivers a list of events one
  after the other, each to the members as the previous handler left them, and collects the
  commands in the order they were sent.
\<close>

datatype event =
    OrderBook Instrument ulong "ulong list" "ulong list" "ulong list" "ulong list"
  | OrderStatus ulong ulong ulong slong
  | Error ulong string
  | OrderFilled ulong ulong ulong
  | HedgeFilled ulong ulong ulong
  | TradeTicks Instrument ulong "ulong list" "ulong list" "ulong list" "ulong list"

fun deliver :: "limits \<Rightarrow> event \<Rightarrow> AutoTrader \<Rightarrow> AutoTrader \<times> command list" where
  "deliver lim (OrderBook instrument sequenceNumber askPrices askVolumes bidPrices bidVolumes) s =
     OrderBookMessageHandler lim instrument sequenceNumber askPrices askVolumes bidPrices bidVolumes s"
| "deliver lim (OrderStatus clientOrderId fillVolume remainingVolume' fees) s =
     OrderStatusMessageHandler lim clientOrderId fillVolume remainingVolume' fees s"
| "deliver lim (Error clientOrderId errorMessage) s =
     ErrorMessageHandler lim clientOrderId errorMessage s"
| "deliver lim (OrderFilled clientOrderId price' volume) s = (s, [])"
| "deliver lim (HedgeFilled clientOrderId price' volume) s = (s, [])"
| "deliver lim (TradeTicks instrument sequenceNumber askPrices askVolumes bidPrices bidVolumes) s = (s, [])"

fun run :: "limits \<Rightarrow> event list \<Rightarrow> AutoTrader \<Rightarrow> AutoTrader \<times> command list" where
  "run lim [] s = (s, [])"
| "run lim (e # es) s =
     (let (s1, sent) = deliver lim e s;
          (s2, sent') = run lim es s1
      in (s2, sent @ sent'))"

text \<open>
  Modelled from the spec: the members of a trader that has received no event. Their
  initialisers are in autotrader.h, which is not among the sources; the constructor in
  autotrader.cc assigns none. Order ids are non-zero and increase, so the first is 1; the
  ledger is empty and the book sequence is 0. The two best prices of the other instrument
  are parameters.
\<close>

definition initial_trader :: "ulong \<Rightarrow> ulong \<Rightarrow> AutoTrader" where
  "initial_trader maxBid minAsk =
     \<lparr>mNextMessageId = 1, mOrderBookSequence = 0, mMarketMaxBid = maxBid, mMarketMinAsk = minAsk,
      mETFPosition = 0, mETFOrderPositionSell = 0, mETFOrderPositionBuy = 0,
      mETFOrderAskCount = 0, mETFOrderBidCount = 0, mAsks = [], mBids = []\<rparr>"

text \<open>An instance of the limits of the exchange, for running the handlers on examples.\<close>

definition example_limits :: limits where
  "example_limits = \<lparr>MAXIMUM_ASK = 2147483647, MINIMUM_BID = 1\<rparr>"

subsection \<open>Vocabulary of the properties\<close>

text \<open>
  A book update of the FUTURE instrument with one price level on each side, and the
  trader after it has received the first such update: it rests one sell order, of id 1,
  and one buy order, of id 2, of 20 lots each.
\<close>

definition future_book :: "ulong \<Rightarrow> ulong \<Rightarrow> ulong \<Rightarrow> event" where
  "future_book sequenceNumber ask bid =
     OrderBook FUTURE sequenceNumber [ask, 0, 0, 0, 0] [5, 0, 0, 0, 0] [bid, 0, 0, 0, 0] [5, 0, 0, 0, 0]"

definition quoted_once :: AutoTrader where
  "quoted_once = fst (deliver example_limits (future_book 1 10000 9000) (initial_trader 0 0))"

text \<open>
  The order an id refers to, as \<open>OrderStatusMessageHandler\<close> finds it: the entry of
  \<open>mAsks\<close> when there is one, the entry of \<open>mBids\<close> otherwise.
\<close>

definition tracked_order :: "AutoTrader \<Rightarrow> ulong \<Rightarrow> Order option" where
  "tracked_order s clientOrderId =
     (case map_of (mAsks s) clientOrderId of
        Some order \<Rightarrow> Some order
      | None \<Rightarrow> map_of (mBids s) clientOrderId)"

definition is_sell_order :: "AutoTrader \<Rightarrow> ulong \<Rightarrow> bool" where
  "is_sell_order s clientOrderId = (map_of (mAsks s) clientOrderId \<noteq> None)"

text \<open>
  The side, price and volume of a hedge command; the total volume of the hedge commands
  of a list; the hedge expected for a fill of \<open>dFilled\<close> lots of a sell or of a buy order.
\<close>

fun hedge_of :: "command \<Rightarrow> (Side \<times> ulong \<times> ulong) option" where
  "hedge_of (HedgeOrder clientOrderId side price' volume) = Some (side, price', volume)"
| "hedge_of (InsertOrder clientOrderId side price' volume lifespan) = None"
| "hedge_of (CancelOrder clientOrderId) = None"

fun hedge_lots :: "(Side \<times> ulong \<times> ulong) option \<Rightarrow> nat" where
  "hedge_lots None = 0"
| "hedge_lots (Some (side, price', volume)) = unat volume"

definition hedged_volume :: "command list \<Rightarrow> nat" where
  "hedged_volume sent = sum_list (map (hedge_lots \<circ> hedge_of) sent)"

definition expected_hedge :: "limits \<Rightarrow> bool \<Rightarrow> ulong \<Rightarrow> (Side \<times> ulong \<times> ulong) option" where
  "expected_hedge lim isSellOrder dFilled =
     (if isSellOrder then Some (BUY, MAX_ASK_NEAREST_TICK lim, dFilled)
      else Some (SELL, MIN_BID_NEARST_TICK lim, dFilled))"

text \<open>
  A sequence of statuses of one order, each a filled volume, a remaining volume and the
  fees; the differences between each filled volume and the one before it, the first
  taken from \<open>f0\<close>; the differences that are not 0.
\<close>

definition statuses_of :: "ulong \<Rightarrow> (ulong \<times> ulong \<times> slong) list \<Rightarrow> event list" where
  "statuses_of clientOrderId sts =
     map (\<lambda>(fillVolume, remainingVolume', fees).
            OrderStatus clientOrderId fillVolume remainingVolume' fees) sts"

fun increments :: "ulong \<Rightarrow> ulong list \<Rightarrow> ulong list" where
  "increments f0 [] = []"
| "increments f0 (f # fs) = (f - f0) # increments f fs"

definition positive_increments :: "ulong \<Rightarrow> ulong list \<Rightarrow> ulong list" where
  "positive_increments f0 fs = filter (\<lambda>d. d \<noteq> 0) (increments f0 fs)"

definition stays_open :: "(ulong \<times> ulong \<times> slong) list \<Rightarrow> bool" where
  "stays_open sts = (\<forall>st \<in> set (butlast sts). fst (snd st) \<noteq> 0)"

text \<open>The entries of a map whose \<open>cancelling\<close> flag is false.\<close>

definition non_cancelling :: "order_map \<Rightarrow> order_map" where
  "non_cancelling m = filter (\<lambda>entry. \<not> cancelling (snd entry)) m"

text \<open>A map with two resting orders, at prices 9900 and 10100.\<close>

definition two_resting_orders :: order_map where
  "two_resting_orders =
     [(1, \<lparr>price = 9900, remainingVolume = 20, filledVolume = 0, cancelling = False\<rparr>),
      (2, \<lparr>price = 10100, remainingVolume = 20, filledVolume = 0, cancelling = False\<rparr>)]"

text \<open>
  The trader reached from the initial one by a list of events. A map with the flags
  cleared: two maps with the same \<open>unflag\<close> have the same keys in the same order and the
  same orders but for the flags.
\<close>

definition reached :: "limits \<Rightarrow> ulong \<Rightarrow> ulong \<Rightarrow> event list \<Rightarrow> AutoTrader" where
  "reached lim maxBid minAsk es = fst (run lim es (initial_trader maxBid minAsk))"

definition unflag :: "order_map \<Rightarrow> order_map" where
  "unflag m = map (\<lambda>entry. (fst entry, (snd entry)\<lparr>cancelling := False\<rparr>)) m"

text \<open>
  Three invariants. \<open>ids_fresh\<close>: each map has one entry for each key, and every key is
  below the next id to be given out. \<open>sides_disjoint\<close>: no id is a key of both maps.
  \<open>counts_ok\<close>: each count is the number of entries of its map, and no map has more than
  five entries.
\<close>

definition ids_fresh :: "AutoTrader \<Rightarrow> bool" where
  "ids_fresh s =
     (distinct (map fst (mAsks s)) \<and> distinct (map fst (mBids s))
      \<and> (\<forall>k \<in> set (map fst (mAsks s)) \<union> set (map fst (mBids s)). unat k < unat (mNextMessageId s)))"

definition sides_disjoint :: "AutoTrader \<Rightarrow> bool" where
  "sides_disjoint s = (set (map fst (mAsks s)) \<inter> set (map fst (mBids s)) = {})"

definition counts_ok :: "AutoTrader \<Rightarrow> bool" where
  "counts_ok s =
     (sint (mETFOrderAskCount s) = int (length (mAsks s)) \<and> length (mAsks s) \<le> 5
      \<and> sint (mETFOrderBidCount s) = int (length (mBids s)) \<and> length (mBids s) \<le> 5)"

text \<open>
  The branch of \<open>RepriceSellOrders\<close> that inserts an order, and the same for
  \<open>RepriceBuyOrders\<close>: the volume of the order, the two tests on position and count that
  let the branch be taken, the command it sends and the members after it, where \<open>asks2\<close>
  is \<open>mAsks\<close> as the scan and the eviction have left it.
\<close>

definition sell_order_volume :: "AutoTrader \<Rightarrow> slong" where
  "sell_order_volume s = long_div (mETFPosition s + POSITION_LIMIT) MAX_ORDER_DEPTH"

definition sell_guard_passed :: "AutoTrader \<Rightarrow> bool" where
  "sell_guard_passed s =
     (\<not> (mETFPosition s - mETFOrderPositionSell s - sell_order_volume s) <s - POSITION_LIMIT
      \<and> \<not> MAX_ORDER_DEPTH \<le>s mETFOrderAskCount s)"

definition sell_insert :: "limits \<Rightarrow> ulong list \<Rightarrow> AutoTrader \<Rightarrow> command" where
  "sell_insert lim askPrices s =
     InsertOrder (mNextMessageId s) SELL (new_ask_price lim askPrices s)
       (sell_order_volume s) GOOD_FOR_DAY"

definition after_sell_insert :: "limits \<Rightarrow> ulong list \<Rightarrow> order_map \<Rightarrow> AutoTrader \<Rightarrow> AutoTrader" where
  "after_sell_insert lim askPrices asks2 s =
     s\<lparr>mNextMessageId := mNextMessageId s + 1,
       mETFOrderAskCount := mETFOrderAskCount s + 1,
       mETFOrderPositionSell := mETFOrderPositionSell s + sell_order_volume s,
       mAsks := AList.update (mNextMessageId s)
          \<lparr>price = new_ask_price lim askPrices s, remainingVolume = sell_order_volume s,
           filledVolume = 0, cancelling = False\<rparr> asks2\<rparr>"

definition buy_order_volume :: "AutoTrader \<Rightarrow> slong" where
  "buy_order_volume s = long_div (POSITION_LIMIT - mETFPosition s) MAX_ORDER_DEPTH"

definition buy_guard_passed :: "AutoTrader \<Rightarrow> bool" where
  "buy_guard_passed s =
     (\<not> POSITION_LIMIT <s (mETFPosition s + mETFOrderPositionBuy s + buy_order_volume s)
      \<and> \<not> MAX_ORDER_DEPTH \<le>s mETFOrderBidCount s)"

definition buy_insert :: "ulong list \<Rightarrow> AutoTrader \<Rightarrow> command" where
  "buy_insert bidPrices s =
     InsertOrder (mNextMessageId s) BUY (new_bid_price bidPrices s)
       (buy_order_volume s) GOOD_FOR_DAY"

definition after_buy_insert :: "ulong list \<Rightarrow> order_map \<Rightarrow> AutoTrader \<Rightarrow> AutoTrader" where
  "after_buy_insert bidPrices bids2 s =
     s\<lparr>mNextMessageId := mNextMessageId s + 1,
       mETFOrderBidCount := mETFOrderBidCount s + 1,
       mETFOrderPositionBuy := mETFOrderPositionBuy s + buy_order_volume s,
       mBids := AList.update (mNextMessageId s)
          \<lparr>price = new_bid_price bidPrices s, remainingVolume = buy_order_volume s,
           filledVolume = 0, cancelling = False\<rparr> bids2\<rparr>"

text \<open>
  The volume reserved by a map: the sum of the remaining volumes of its orders. The
  invariant \<open>ledger_ok\<close>: the two reserved-volume members are these sums, and the position
  stays within the limit even if all resting volume of one side fills.
\<close>

definition reserved :: "order_map \<Rightarrow> nat" where
  "reserved m = sum_list (map (\<lambda>entry. unat (remainingVolume (snd entry))) m)"

definition ledger_ok :: "AutoTrader \<Rightarrow> bool" where
  "ledger_ok s =
     (sint (mETFOrderPositionSell s) = int (reserved (mAsks s))
      \<and> sint (mETFOrderPositionBuy s) = int (reserved (mBids s))
      \<and> - 100 \<le> sint (mETFPosition s) - int (reserved (mAsks s))
      \<and> sint (mETFPosition s) + int (reserved (mBids s)) \<le> 100)"

text \<open>
  Well-formed delivery. A status of a tracked order is well formed when its filled volume
  is not below the one recorded for the order and its filled and remaining volumes
  together do not exceed the recorded ones: what is filled comes out of what remained, so
  the filled volume never decreases and never exceeds the order's volume. A status of an
  order that is not tracked is always well formed. \<open>statuses_well_formed\<close> asks this of
  every status event of a list, each taken against the members it is delivered to.
  \<open>errors_name_unfilled\<close> asks of every error event that the order it names, if tracked,
  has no fill recorded.
\<close>

definition conserving :: "Order \<Rightarrow> ulong \<Rightarrow> ulong \<Rightarrow> bool" where
  "conserving order fillVolume remainingVolume' =
     (filledVolume order \<le> fillVolume
      \<and> unat fillVolume + unat remainingVolume'
           \<le> unat (filledVolume order) + unat (remainingVolume order))"

definition status_well_formed :: "AutoTrader \<Rightarrow> ulong \<Rightarrow> ulong \<Rightarrow> ulong \<Rightarrow> bool" where
  "status_well_formed s clientOrderId fillVolume remainingVolume' =
     (case tracked_order s clientOrderId of
        None \<Rightarrow> True
      | Some order \<Rightarrow> conserving order fillVolume remainingVolume')"

fun status_event_ok :: "AutoTrader \<Rightarrow> event \<Rightarrow> bool" where
  "status_event_ok s (OrderStatus clientOrderId fillVolume remainingVolume' fees) =
     status_well_formed s clientOrderId fillVolume remainingVolume'"
| "status_event_ok s (OrderBook instrument sequenceNumber askPrices askVolumes bidPrices bidVolumes) = True"
| "status_event_ok s (Error clientOrderId errorMessage) = True"
| "status_event_ok s (OrderFilled clientOrderId price' volume) = True"
| "status_event_ok s (HedgeFilled clientOrderId price' volume) = True"
| "status_event_ok s (TradeTicks instrument sequenceNumber askPrices askVolumes bidPrices bidVolumes) = True"

fun error_event_ok :: "AutoTrader \<Rightarrow> event \<Rightarrow> bool" where
  "error_event_ok s (Error clientOrderId errorMessage) =
     (case tracked_order s clientOrderId of
        None \<Rightarrow> True
      | Some order \<Rightarrow> filledVolume order = 0)"
| "error_event_ok s (OrderBook instrument sequenceNumber askPrices askVolumes bidPrices bidVolumes) = True"
| "error_event_ok s (OrderStatus clientOrderId fillVolume remainingVolume' fees) = True"
| "error_event_ok s (OrderFilled clientOrderId price' volume) = True"
| "error_event_ok s (HedgeFilled clientOrderId price' volume) = True"
| "error_event_ok s (TradeTicks instrument sequenceNumber askPrices askVolumes bidPrices bidVolumes) = True"

fun statuses_well_formed :: "limits \<Rightarrow> event list \<Rightarrow> AutoTrader \<Rightarrow> bool" where
  "statuses_well_formed lim [] s = True"
| "statuses_well_formed lim (e # es) s =
     (status_event_ok s e \<and> statuses_well_formed lim es (fst (deliver lim e s)))"

fun errors_name_unfilled :: "limits \<Rightarrow> event list \<Rightarrow> AutoTrader \<Rightarrow> bool" where
  "errors_name_unfilled lim [] s = True"
| "errors_name_unfilled lim (e # es) s =
     (error_event_ok s e \<and> errors_name_unfilled lim es (fst (deliver lim e s)))"

text \<open>
  The events of the example in which the position leaves the limit: the sell order 1 is
  filled for 19 of its 20 lots, five buy orders are inserted and filled in full, and an
  error then names order 1.
\<close>

definition breaching_events :: "event list" where
  "breaching_events =
     [future_book 1 10000 9000,
      OrderStatus 1 19 1 0,
      future_book 2 0 9100,
      future_book 3 0 9200,
      future_book 4 0 9300,
      OrderStatus 2 20 0 0,
      future_book 5 0 9400,
      OrderStatus 4 23 0 0,
      OrderStatus 5 23 0 0,
      OrderStatus 6 23 0 0,
      OrderStatus 8 19 0 0,
      Error 1 ''rejected'']"

text \<open>
  The events of an example of well-formed delivery: the sell order 1 is filled in two
  steps, and an error names the buy order 2, of which nothing is filled.
\<close>

definition calm_events :: "event list" where
  "calm_events =
     [future_book 1 10000 9000,
      OrderStatus 1 4 16 0,
      OrderStatus 1 20 0 0,
      Error 2 ''rejected'']"


section \<open>Properties\<close>

lemmas handler_defs =
  OrderBookMessageHandler_def RepriceSellOrders_def RepriceBuyOrders_def
  OrderStatusMessageHandler_def status_on_side_def ErrorMessageHandler_def
  new_ask_price_def new_bid_price_def MultiplyBasis_def long_div_def signed_divide_int_def
  sell_body_def buy_body_def mark_cancelling_def sell_start_def buy_start_def
  MARGIN_BASIS_def POSITION_LIMIT_def MAX_ORDER_DEPTH_def TICK_SIZE_IN_CENTS_def
  MAX_ORDER_def MIN_ORDER_def MAX_ASK_NEAREST_TICK_def MIN_BID_NEARST_TICK_def through_int_def

lemmas example_defs =
  handler_defs initial_trader_def example_limits_def future_book_def
  Let_def word_sle_eq word_sless_alt

lemma quoted_once_eq:
  "quoted_once =
    \<lparr>mNextMessageId = 3, mOrderBookSequence = 1, mMarketMaxBid = 0, mMarketMinAsk = 0,
     mETFPosition = 0, mETFOrderPositionSell = 20, mETFOrderPositionBuy = 20,
     mETFOrderAskCount = 1, mETFOrderBidCount = 1,
     mAsks = [(1, \<lparr>price = 10000, remainingVolume = 20, filledVolume = 0, cancelling = False\<rparr>)],
     mBids = [(2, \<lparr>price = 8900, remainingVolume = 20, filledVolume = 0, cancelling = False\<rparr>)]\<rparr>"
  by (simp add: quoted_once_def example_defs)

lemma map_of_delete_self: "map_of (AList.delete k m) k = None"
  by (simp add: AList.delete_conv')

lemma map_of_update_self: "map_of (AList.update k v m) k = Some v"
  by (simp add: AList.update_conv')

subsection \<open>Arithmetic of \<open>signed long\<close> on small values\<close>

lemma sint_small_64:
  "- (2 ^ 63) \<le> k \<Longrightarrow> k < 2 ^ 63 \<Longrightarrow> sint (word_of_int k :: 64 word) = k"
  by (simp add: signed_of_int signed_take_bit_int_eq_self)

lemma sint_add_64:
  fixes a b :: "64 word"
  assumes "- (2 ^ 62) \<le> sint a" "sint a < 2 ^ 62" "- (2 ^ 62) < sint b" "sint b < 2 ^ 62"
  shows "sint (a + b) = sint a + sint b"
proof -
  have "signed_take_bit 63 (sint a + sint b) = sint a + sint b"
    by (rule signed_take_bit_int_eq_self) (use assms in simp_all)
  then show ?thesis by (simp add: sint_word_ariths)
qed

lemma sint_sub_64:
  fixes a b :: "64 word"
  assumes "- (2 ^ 62) \<le> sint a" "sint a < 2 ^ 62" "- (2 ^ 62) < sint b" "sint b < 2 ^ 62"
  shows "sint (a - b) = sint a - sint b"
proof -
  have "signed_take_bit 63 (sint a - sint b) = sint a - sint b"
    by (rule signed_take_bit_int_eq_self) (use assms in simp_all)
  then show ?thesis by (simp add: sint_word_ariths)
qed

lemma sint_long_div:
  fixes a :: "64 word"
  assumes "0 \<le> sint a" "sint a < 2 ^ 62"
  shows "sint (long_div a 5) = sint a div 5"
proof -
  have "sint a sdiv sint (5 :: 64 word) = sint a div 5"
    using assms by (simp add: signed_divide_int_def sgn_if)
  moreover have "sint a div 5 \<le> sint a" using assms by simp
  moreover have "0 \<le> sint a div 5" using assms by simp
  ultimately show ?thesis
    using assms unfolding long_div_def
    by (simp add: sint_small_64)
qed

subsection \<open>Events that name an order the trader does not track\<close>

text \<open>
  C10. A status event or an error event whose order id is a key of neither \<open>mAsks\<close> nor
  \<open>mBids\<close> leaves every member as it was and sends no command. The handlers are total
  functions: there is no branch on which they fail.
\<close>

theorem untracked_order_ignored:
  assumes "map_of (mAsks s) clientOrderId = None"
      and "map_of (mBids s) clientOrderId = None"
  shows "OrderStatusMessageHandler lim clientOrderId fillVolume remainingVolume' fees s = (s, [])
       \<and> ErrorMessageHandler lim clientOrderId errorMessage s = (s, [])"
  using assms by (simp add: OrderStatusMessageHandler_def ErrorMessageHandler_def)

theorem untracked_order_ignored_witness:
  "map_of (mAsks quoted_once) 7 = None \<and> map_of (mBids quoted_once) 7 = None
   \<and> OrderStatusMessageHandler example_limits 7 3 2 0 quoted_once = (quoted_once, [])
   \<and> ErrorMessageHandler example_limits 7 ''rejected'' quoted_once = (quoted_once, [])"
proof -
  have a: "map_of (mAsks quoted_once) 7 = None" and b: "map_of (mBids quoted_once) 7 = None"
    by (simp_all add: quoted_once_eq)
  from untracked_order_ignored [OF a b] a b show ?thesis by simp
qed

subsection \<open>A status that reports no remaining volume\<close>

text \<open>
  C7. The order id is a key of exactly one of \<open>mAsks\<close> and \<open>mBids\<close>, and the status reports
  a remaining volume of 0. After the handler the id is a key of neither map, the count of
  the order's side is one less and the count of the other side is the same.
\<close>

theorem terminal_status_removes_order:
  assumes "(map_of (mAsks s) clientOrderId \<noteq> None) \<noteq> (map_of (mBids s) clientOrderId \<noteq> None)"
      and "OrderStatusMessageHandler lim clientOrderId fillVolume 0 fees s = (s', sent)"
  shows "map_of (mAsks s') clientOrderId = None \<and> map_of (mBids s') clientOrderId = None
       \<and> (if map_of (mAsks s) clientOrderId \<noteq> None
           then mETFOrderAskCount s' = mETFOrderAskCount s - 1
              \<and> mETFOrderBidCount s' = mETFOrderBidCount s
           else mETFOrderBidCount s' = mETFOrderBidCount s - 1
              \<and> mETFOrderAskCount s' = mETFOrderAskCount s)"
  using assms
  by (auto simp: OrderStatusMessageHandler_def status_on_side_def Let_def map_of_delete_self
           split: option.splits if_splits prod.splits)

theorem terminal_status_removes_order_witness:
  "(map_of (mAsks quoted_once) 1 \<noteq> None) \<noteq> (map_of (mBids quoted_once) 1 \<noteq> None)
   \<and> map_of (mAsks (fst (OrderStatusMessageHandler example_limits 1 20 0 0 quoted_once))) 1 = None
   \<and> map_of (mBids (fst (OrderStatusMessageHandler example_limits 1 20 0 0 quoted_once))) 1 = None
   \<and> mETFOrderAskCount (fst (OrderStatusMessageHandler example_limits 1 20 0 0 quoted_once)) = 0
   \<and> mETFOrderBidCount (fst (OrderStatusMessageHandler example_limits 1 20 0 0 quoted_once)) = 1"
proof -
  have tracked: "(map_of (mAsks quoted_once) 1 \<noteq> None) \<noteq> (map_of (mBids quoted_once) 1 \<noteq> None)"
    by (simp add: quoted_once_eq)
  have "OrderStatusMessageHandler example_limits 1 20 0 0 quoted_once
          = (fst (OrderStatusMessageHandler example_limits 1 20 0 0 quoted_once),
             snd (OrderStatusMessageHandler example_limits 1 20 0 0 quoted_once))"
    by simp
  from terminal_status_removes_order [OF tracked this] tracked
  show ?thesis by (simp add: quoted_once_eq)
qed

subsection \<open>Book updates of the two instruments\<close>

text \<open>
  C4, as the code has it. The handler records the best bid and the best ask of a book
  update whose instrument is not FUTURE, that is, of the ETF: \<open>mMarketMaxBid\<close> becomes the
  first bid price and \<open>mMarketMinAsk\<close> the first ask price, or \<open>MAXIMUM_ASK\<close> when that
  price is 0. No other member changes and no command is sent.
\<close>

theorem etf_book_records_best_prices:
  "OrderBookMessageHandler lim ETF sequenceNumber askPrices askVolumes bidPrices bidVolumes s
     = (s\<lparr>mMarketMaxBid := bidPrices ! 0,
          mMarketMinAsk := (if askPrices ! 0 \<noteq> 0 then askPrices ! 0 else MAXIMUM_ASK lim)\<rparr>, [])"
  by (simp add: OrderBookMessageHandler_def)

text \<open>
  C4, as stated, fails for the futures: a FUTURE book update with a new sequence number
  does not record its best bid, and it runs the repricing pass, which sends two inserts.
\<close>

theorem future_book_not_recorded:
  "mMarketMaxBid (fst (OrderBookMessageHandler example_limits FUTURE 1
      [10000, 0, 0, 0, 0] [5, 0, 0, 0, 0] [9000, 0, 0, 0, 0] [5, 0, 0, 0, 0] (initial_trader 0 0))) \<noteq> 9000
   \<and> snd (OrderBookMessageHandler example_limits FUTURE 1
      [10000, 0, 0, 0, 0] [5, 0, 0, 0, 0] [9000, 0, 0, 0, 0] [5, 0, 0, 0, 0] (initial_trader 0 0))
      = [InsertOrder 1 SELL 10000 20 GOOD_FOR_DAY, InsertOrder 2 BUY 8900 20 GOOD_FOR_DAY]"
  by (simp add: example_defs)

text \<open>
  C3, as the code has it. The sequence guard is on the book updates of the FUTURE
  instrument, the ones that drive the repricing pass: such an update whose sequence number
  is at most \<open>mOrderBookSequence\<close> changes no member and sends no command.
\<close>

theorem stale_future_book_ignored:
  assumes "sequenceNumber \<le> mOrderBookSequence s"
  shows "OrderBookMessageHandler lim FUTURE sequenceNumber askPrices askVolumes bidPrices bidVolumes s
           = (s, [])"
  using assms by (simp add: OrderBookMessageHandler_def)

theorem stale_future_book_ignored_witness:
  "(1::ulong) \<le> mOrderBookSequence quoted_once
   \<and> OrderBookMessageHandler example_limits FUTURE 1
        [10100, 0, 0, 0, 0] [5, 0, 0, 0, 0] [9100, 0, 0, 0, 0] [5, 0, 0, 0, 0] quoted_once
      = (quoted_once, [])"
proof -
  have "(1::ulong) \<le> mOrderBookSequence quoted_once" by (simp add: quoted_once_eq)
  from this stale_future_book_ignored [OF this] show ?thesis by simp
qed

text \<open>
  C3, as stated, fails for the ETF, the instrument the trader quotes: an ETF book update
  whose sequence number is at most \<open>mOrderBookSequence\<close> still changes \<open>mMarketMaxBid\<close>.
\<close>

theorem stale_etf_book_recorded:
  "(1::ulong) \<le> mOrderBookSequence quoted_once
   \<and> mMarketMaxBid (fst (OrderBookMessageHandler example_limits ETF 1
        [10100, 0, 0, 0, 0] [5, 0, 0, 0, 0] [9900, 0, 0, 0, 0] [5, 0, 0, 0, 0] quoted_once))
       \<noteq> mMarketMaxBid quoted_once"
  by (simp add: quoted_once_eq OrderBookMessageHandler_def)

subsection \<open>The sell target and the first insert\<close>

lemma guard_passes_when_nothing_reserved:
  fixes p :: "64 word"
  assumes "- 100 \<le>s p" "p \<le>s 100"
  shows "\<not> (p - 0 - long_div (p + POSITION_LIMIT) MAX_ORDER_DEPTH <s - POSITION_LIMIT)"
proof -
  have r: "- 100 \<le> sint p" "sint p \<le> 100"
    using assms by (simp_all add: word_sle_eq)
  have s1: "sint (p + 100) = sint p + 100"
    using r by (subst sint_add_64) simp_all
  have s2: "sint (long_div (p + 100) 5) = (sint p + 100) div 5"
    using r s1 by (subst sint_long_div) simp_all
  have s3: "sint (p - long_div (p + 100) 5) = sint p - (sint p + 100) div 5"
    using r s2 by (subst sint_sub_64) simp_all
  show ?thesis
    using r s3 by (simp add: word_sless_alt POSITION_LIMIT_def MAX_ORDER_DEPTH_def)
qed

lemma reprice_sell_empty:
  assumes "mAsks s = []" "mETFOrderAskCount s = 0" "mETFOrderPositionSell s = 0"
      and "- 100 \<le>s mETFPosition s" "mETFPosition s \<le>s 100" "askPrices ! 0 \<noteq> 0"
  shows "snd (RepriceSellOrders lim askPrices askVolumes s) =
           [InsertOrder (mNextMessageId s) SELL (new_ask_price lim askPrices s)
              (long_div (mETFPosition s + POSITION_LIMIT) MAX_ORDER_DEPTH) GOOD_FOR_DAY]"
  using assms guard_passes_when_nothing_reserved [OF assms(4,5)]
  by (simp add: RepriceSellOrders_def Let_def MAX_ORDER_DEPTH_def word_sle_eq sell_start_def)

text \<open>
  With no sell order resting and the position within the limit, the first command that an
  accepted FUTURE book update sends is the insert of a sell order at the target price, of
  \<open>(mETFPosition + POSITION_LIMIT) / MAX_ORDER_DEPTH\<close> lots.
\<close>

lemma first_command_is_sell_insert:
  assumes "mAsks s = []" and "mETFOrderAskCount s = 0" and "mETFOrderPositionSell s = 0"
      and "- 100 \<le>s mETFPosition s" and "mETFPosition s \<le>s 100"
      and "mOrderBookSequence s < sequenceNumber" and "askPrices ! 0 \<noteq> 0"
  shows "\<exists>sentBuy.
            snd (OrderBookMessageHandler lim FUTURE sequenceNumber
                   askPrices askVolumes bidPrices bidVolumes s)
              = InsertOrder (mNextMessageId s) SELL (new_ask_price lim askPrices s)
                  (long_div (mETFPosition s + POSITION_LIMIT) MAX_ORDER_DEPTH) GOOD_FOR_DAY
                # sentBuy"
proof -
  let ?s1 = "s\<lparr>mOrderBookSequence := sequenceNumber\<rparr>"
  have same: "new_ask_price lim askPrices ?s1 = new_ask_price lim askPrices s"
    by (simp add: new_ask_price_def)
  have "snd (RepriceSellOrders lim askPrices askVolumes ?s1) =
           [InsertOrder (mNextMessageId ?s1) SELL (new_ask_price lim askPrices ?s1)
              (long_div (mETFPosition ?s1 + POSITION_LIMIT) MAX_ORDER_DEPTH) GOOD_FOR_DAY]"
    by (rule reprice_sell_empty) (use assms in simp_all)
  then have sell: "snd (RepriceSellOrders lim askPrices askVolumes ?s1) =
           [InsertOrder (mNextMessageId s) SELL (new_ask_price lim askPrices s)
              (long_div (mETFPosition s + POSITION_LIMIT) MAX_ORDER_DEPTH) GOOD_FOR_DAY]"
    using same by simp
  have "\<not> sequenceNumber \<le> mOrderBookSequence s" using assms(6) by simp
  then have "\<exists>sentBuy.
      snd (OrderBookMessageHandler lim FUTURE sequenceNumber
             askPrices askVolumes bidPrices bidVolumes s)
        = snd (RepriceSellOrders lim askPrices askVolumes ?s1) @ sentBuy"
    by (simp add: OrderBookMessageHandler_def Let_def split: prod.splits)
  then show ?thesis using sell by simp
qed

text \<open>
  C5. An ETF book update records a best bid of 9900, and a FUTURE book update with a new
  sequence number and a first ask price of 10000 follows; no sell order rests.
  \<open>RepriceSellOrders\<close> calls \<open>MultiplyBasis\<close> with the basis 7 and \<open>ceil = true\<close>, asking for
  \<open>10000 * 1.0007 = 10007\<close> rounded up. The body of \<open>MultiplyBasis\<close> never reads \<open>ceil\<close>: it
  divides \<open>10000 * 10007\<close> by 1000000, which truncates to 100, and returns \<open>100 * 100\<close>.
  The result is 10000, the same as with \<open>ceil = false\<close>, and it is below 10007: the margin
  is rounded away. The target is \<open>max (9900 + 100) 10000 = 10000\<close>, and the sell order of
  \<open>(0 + 100) / 5 = 20\<close> lots is inserted at 10000, the observed ask price itself.
\<close>

theorem sell_target_rounds_margin_away:
  "MultiplyBasis 10000 MARGIN_BASIS True = 10000
   \<and> MultiplyBasis 10000 MARGIN_BASIS True = MultiplyBasis 10000 MARGIN_BASIS False
   \<and> MultiplyBasis 10000 MARGIN_BASIS True < 10007
   \<and> new_ask_price example_limits [10000, 0, 0, 0, 0]
        (reached example_limits 0 0
           [OrderBook ETF 1 [10100, 0, 0, 0, 0] [5, 0, 0, 0, 0] [9900, 0, 0, 0, 0] [5, 0, 0, 0, 0]])
      = 10000
   \<and> run example_limits
       [OrderBook ETF 1 [10100, 0, 0, 0, 0] [5, 0, 0, 0, 0] [9900, 0, 0, 0, 0] [5, 0, 0, 0, 0],
        OrderBook FUTURE 1 [10000, 0, 0, 0, 0] [5, 0, 0, 0, 0] [0, 0, 0, 0, 0] [0, 0, 0, 0, 0]]
       (initial_trader 0 0)
     = (\<lparr>mNextMessageId = 2, mOrderBookSequence = 1, mMarketMaxBid = 9900, mMarketMinAsk = 10100,
         mETFPosition = 0, mETFOrderPositionSell = 20, mETFOrderPositionBuy = 0,
         mETFOrderAskCount = 1, mETFOrderBidCount = 0,
         mAsks = [(1, \<lparr>price = 10000, remainingVolume = 20, filledVolume = 0, cancelling = False\<rparr>)],
         mBids = []\<rparr>,
        [InsertOrder 1 SELL 10000 20 GOOD_FOR_DAY])"
  by code_simp

subsection \<open>An error that names a partly filled order\<close>

text \<open>
  C6. The trader rests the sell order 1 of 20 lots, a status reports 4 of them filled, and
  an error then names the order. \<open>ErrorMessageHandler\<close> calls the status handler with a
  filled volume of 0; \<open>dFilled\<close> is the \<open>unsigned long\<close> difference \<open>0 - 4\<close>, which is
  \<open>2^64 - 4\<close> and passes the test \<open>dFilled > 0\<close>. The handler sends a hedge order of
  \<open>2^64 - 4\<close> lots and moves the position from -4 back to 0; the order is removed and the
  count and reserved volume of its side are released.
\<close>

theorem error_on_partly_filled_order:
  "run example_limits
     [future_book 1 10000 9000, OrderStatus 1 4 16 0, Error 1 ''rejected''] (initial_trader 0 0)
   = (\<lparr>mNextMessageId = 5, mOrderBookSequence = 1, mMarketMaxBid = 0, mMarketMinAsk = 0,
       mETFPosition = 0, mETFOrderPositionSell = 0, mETFOrderPositionBuy = 20,
       mETFOrderAskCount = 0, mETFOrderBidCount = 1, mAsks = [],
       mBids = [(2, \<lparr>price = 8900, remainingVolume = 20, filledVolume = 0, cancelling = False\<rparr>)]\<rparr>,
      [InsertOrder 1 SELL 10000 20 GOOD_FOR_DAY, InsertOrder 2 BUY 8900 20 GOOD_FOR_DAY,
       HedgeOrder 3 BUY 2147483600 4, HedgeOrder 4 BUY 2147483600 18446744073709551612])"
  by code_simp

subsection \<open>The scan over the resting orders\<close>

text \<open>
  The scan in closed form: the map after the scan has the same entries in the same order,
  with the flag set on those that were not cancelling and whose price crosses the target;
  the commands sent are the cancels of these entries, in the order of the map.
\<close>

lemma sell_loop_result:
  "fst (sell_loop p m l) =
      map (\<lambda>e. if \<not> cancelling (snd e) \<and> price (snd e) < p
                then (fst e, (snd e)\<lparr>cancelling := True\<rparr>) else e) m
   \<and> fst (snd (sell_loop p m l)) =
      map (\<lambda>e. CancelOrder (fst e)) (filter (\<lambda>e. \<not> cancelling (snd e) \<and> price (snd e) < p) m)"
proof (induction m arbitrary: l)
  case Nil
  then show ?case by simp
next
  case (Cons e m)
  obtain e' sent l1 where b: "sell_body p e l = (e', sent, l1)"
    by (cases "sell_body p e l")
  obtain m' sent' l2 where r: "sell_loop p m l1 = (m', sent', l2)"
    by (cases "sell_loop p m l1")
  have e': "e' = (if \<not> cancelling (snd e) \<and> price (snd e) < p
                  then (fst e, (snd e)\<lparr>cancelling := True\<rparr>) else e)"
    and sent: "sent = (if \<not> cancelling (snd e) \<and> price (snd e) < p then [CancelOrder (fst e)] else [])"
    using b by (auto simp: sell_body_def Let_def split: if_splits)
  from Cons.IH [of l1] r e' sent b show ?case by simp
qed

lemma buy_loop_result:
  "fst (buy_loop p m l) =
      map (\<lambda>e. if \<not> cancelling (snd e) \<and> p < price (snd e)
                then (fst e, (snd e)\<lparr>cancelling := True\<rparr>) else e) m
   \<and> fst (snd (buy_loop p m l)) =
      map (\<lambda>e. CancelOrder (fst e)) (filter (\<lambda>e. \<not> cancelling (snd e) \<and> p < price (snd e)) m)"
proof (induction m arbitrary: l)
  case Nil
  then show ?case by simp
next
  case (Cons e m)
  obtain e' sent l1 where b: "buy_body p e l = (e', sent, l1)"
    by (cases "buy_body p e l")
  obtain m' sent' l2 where r: "buy_loop p m l1 = (m', sent', l2)"
    by (cases "buy_loop p m l1")
  have e': "e' = (if \<not> cancelling (snd e) \<and> p < price (snd e)
                  then (fst e, (snd e)\<lparr>cancelling := True\<rparr>) else e)"
    and sent: "sent = (if \<not> cancelling (snd e) \<and> p < price (snd e) then [CancelOrder (fst e)] else [])"
    using b by (auto simp: buy_body_def Let_def split: if_splits)
  from Cons.IH [of l1] r e' sent b show ?case by simp
qed

lemma count_cancels:
  assumes "distinct (map fst m)" "(k, order) \<in> set m"
  shows "count_list (map (\<lambda>e. CancelOrder (fst e)) (filter P m)) (CancelOrder k)
           = (if P (k, order) then 1 else 0)"
  using assms
proof (induction m)
  case Nil
  then show ?case by simp
next
  case (Cons e m)
  show ?case
  proof (cases "e = (k, order)")
    case True
    then have "k \<notin> fst ` set m" using Cons.prems(1) by simp
    then have "count_list (map (\<lambda>e. CancelOrder (fst e)) (filter P m)) (CancelOrder k) = 0"
      by (auto simp: count_list_0_iff)
    then show ?thesis using True by simp
  next
    case False
    then have in_m: "(k, order) \<in> set m" using Cons.prems(2) by simp
    then have "fst e \<noteq> k" using Cons.prems(1) by (cases e) force
    then show ?thesis using Cons.IH in_m Cons.prems(1) by simp
  qed
qed

lemma map_of_flagged:
  assumes "distinct (map fst m)" "(k, order) \<in> set m"
  shows "map_of (map (\<lambda>e. if P e then (fst e, (snd e)\<lparr>cancelling := True\<rparr>) else e) m) k
          = Some (if P (k, order) then order\<lparr>cancelling := True\<rparr> else order)"
  using assms
proof (induction m)
  case Nil
  then show ?case by simp
next
  case (Cons e m)
  show ?case
  proof (cases "e = (k, order)")
    case True
    then show ?thesis by simp
  next
    case False
    then have in_m: "(k, order) \<in> set m" using Cons.prems(2) by simp
    then have "fst e \<noteq> k" using Cons.prems(1) by (cases e) force
    then show ?thesis using Cons.IH in_m Cons.prems(1) by simp
  qed
qed

text \<open>
  C8. \<open>m\<close> is a map of resting orders and \<open>order\<close>, of key \<open>k\<close>, one of its entries that
  is not cancelling. In the scan of the sell side, if the price of the order is below
  the target the scan sends exactly one cancel for \<open>k\<close> and leaves the order marked
  cancelling; if the price is at or above the target the scan sends no cancel for \<open>k\<close> and
  leaves the order as it was. In the scan of the buy side the same holds with the price
  above the target, and at or below it.
\<close>

theorem reconciliation_cancels:
  assumes "distinct (map fst m)" and "(k, order) \<in> set m" and "\<not> cancelling order"
  shows "(price order < newAskPrice \<longrightarrow>
            count_list (fst (snd (sell_loop newAskPrice m l))) (CancelOrder k) = 1
          \<and> map_of (fst (sell_loop newAskPrice m l)) k = Some (order\<lparr>cancelling := True\<rparr>))
       \<and> (newAskPrice \<le> price order \<longrightarrow>
            count_list (fst (snd (sell_loop newAskPrice m l))) (CancelOrder k) = 0
          \<and> map_of (fst (sell_loop newAskPrice m l)) k = Some order)
       \<and> (newBidPrice < price order \<longrightarrow>
            count_list (fst (snd (buy_loop newBidPrice m l'))) (CancelOrder k) = 1
          \<and> map_of (fst (buy_loop newBidPrice m l')) k = Some (order\<lparr>cancelling := True\<rparr>))
       \<and> (price order \<le> newBidPrice \<longrightarrow>
            count_list (fst (snd (buy_loop newBidPrice m l'))) (CancelOrder k) = 0
          \<and> map_of (fst (buy_loop newBidPrice m l')) k = Some order)"
proof -
  let ?sell = "\<lambda>e. \<not> cancelling (snd e) \<and> price (snd e) < newAskPrice"
  let ?buy = "\<lambda>e. \<not> cancelling (snd e) \<and> newBidPrice < price (snd e)"
  have sell: "?sell (k, order) = (price order < newAskPrice)"
    and buy: "?buy (k, order) = (newBidPrice < price order)"
    using assms(3) by simp_all
  show ?thesis
    using count_cancels [OF assms(1,2), of ?sell] count_cancels [OF assms(1,2), of ?buy]
      map_of_flagged [OF assms(1,2), of ?sell] map_of_flagged [OF assms(1,2), of ?buy]
    unfolding sell buy
    by (auto simp: sell_loop_result buy_loop_result)
qed

text \<open>
  The two orders of the scenario, at 9900 and at 10100, scanned as sell orders against a
  target ask of 10007 and as buy orders against a target bid of 10000.
\<close>

theorem reconciliation_cancels_witness:
  "distinct (map fst two_resting_orders)
   \<and> count_list (fst (snd (sell_loop 10007 two_resting_orders sell_start))) (CancelOrder 1) = 1
   \<and> map_of (fst (sell_loop 10007 two_resting_orders sell_start)) 1
        = Some \<lparr>price = 9900, remainingVolume = 20, filledVolume = 0, cancelling = True\<rparr>
   \<and> count_list (fst (snd (sell_loop 10007 two_resting_orders sell_start))) (CancelOrder 2) = 0
   \<and> map_of (fst (sell_loop 10007 two_resting_orders sell_start)) 2
        = Some \<lparr>price = 10100, remainingVolume = 20, filledVolume = 0, cancelling = False\<rparr>
   \<and> count_list (fst (snd (buy_loop 10000 two_resting_orders (buy_start example_limits)))) (CancelOrder 2) = 1
   \<and> map_of (fst (buy_loop 10000 two_resting_orders (buy_start example_limits))) 2
        = Some \<lparr>price = 10100, remainingVolume = 20, filledVolume = 0, cancelling = True\<rparr>
   \<and> count_list (fst (snd (buy_loop 10000 two_resting_orders (buy_start example_limits)))) (CancelOrder 1) = 0
   \<and> map_of (fst (buy_loop 10000 two_resting_orders (buy_start example_limits))) 1
        = Some \<lparr>price = 9900, remainingVolume = 20, filledVolume = 0, cancelling = False\<rparr>"
proof -
  let ?low = "\<lparr>price = 9900, remainingVolume = 20, filledVolume = 0, cancelling = False\<rparr>"
  let ?high = "\<lparr>price = 10100, remainingVolume = 20, filledVolume = 0, cancelling = False\<rparr>"
  have d: "distinct (map fst two_resting_orders)"
    by (simp add: two_resting_orders_def)
  have low: "(1, ?low) \<in> set two_resting_orders" and high: "(2, ?high) \<in> set two_resting_orders"
    by (simp_all add: two_resting_orders_def)
  have nl: "\<not> cancelling ?low" and nh: "\<not> cancelling ?high" by simp_all
  from reconciliation_cancels [OF d low nl, of 10007 sell_start 10000 "buy_start example_limits"]
       reconciliation_cancels [OF d high nh, of 10007 sell_start 10000 "buy_start example_limits"] d
  show ?thesis by simp
qed

subsection \<open>Hedging the fills of one order\<close>

lemma status_of_tracked_order:
  assumes "tracked_order s k = Some order"
  shows "OrderStatusMessageHandler lim k f r fees s
           = status_on_side lim (is_sell_order s k) order k f r s"
  using assms
  by (auto simp: OrderStatusMessageHandler_def tracked_order_def is_sell_order_def
           split: option.splits)

lemma status_on_side_sent:
  "snd (status_on_side lim b order k f r s) =
     (if f \<noteq> filledVolume order
      then [HedgeOrder (mNextMessageId s) (if b then BUY else SELL)
              (if b then MAX_ASK_NEAREST_TICK lim else MIN_BID_NEARST_TICK lim)
              (f - filledVolume order)]
      else [])"
  by (simp add: status_on_side_def Let_def word_greater_zero_iff split: prod.splits)

lemma hedge_of_status:
  "map hedge_of (snd (status_on_side lim b order k f r s)) =
     map (expected_hedge lim b) (positive_increments (filledVolume order) [f])"
  by (simp add: status_on_side_sent expected_hedge_def positive_increments_def)

lemma status_keeps_open_order:
  assumes "r \<noteq> 0" "tracked_order s k = Some order"
  shows "tracked_order (fst (status_on_side lim (is_sell_order s k) order k f r s)) k
           = Some (order\<lparr>remainingVolume := r, filledVolume := f\<rparr>)
       \<and> is_sell_order (fst (status_on_side lim (is_sell_order s k) order k f r s)) k
           = is_sell_order s k"
  using assms
  by (auto simp: status_on_side_def Let_def tracked_order_def is_sell_order_def
        word_greater_zero_iff map_of_update_self AList.update_conv'
      split: prod.splits option.splits)

lemma positive_increments_Cons:
  "positive_increments f0 (f # fs) = positive_increments f0 [f] @ positive_increments f fs"
  by (simp add: positive_increments_def)

lemma hedges_of_statuses:
  assumes "tracked_order s k = Some order" and "stays_open sts"
  shows "map hedge_of (snd (run lim (statuses_of k sts) s)) =
          map (expected_hedge lim (is_sell_order s k))
              (positive_increments (filledVolume order) (map fst sts))"
  using assms
proof (induction sts arbitrary: s order)
  case Nil
  then show ?case by (simp add: statuses_of_def positive_increments_def)
next
  case (Cons st sts)
  obtain f r fees where st: "st = (f, r, fees)" by (cases st)
  let ?s1 = "fst (status_on_side lim (is_sell_order s k) order k f r s)"
  have head: "deliver lim (OrderStatus k f r fees) s
                = status_on_side lim (is_sell_order s k) order k f r s"
    using Cons.prems(1) by (simp add: status_of_tracked_order)
  show ?case
  proof (cases sts)
    case Nil
    have "snd (run lim (statuses_of k (st # sts)) s)
            = snd (status_on_side lim (is_sell_order s k) order k f r s)"
      using head Nil by (simp add: statuses_of_def st Let_def split: prod.splits)
    then show ?thesis
      using hedge_of_status [of lim "is_sell_order s k" order k f r s] Nil
      by (simp add: st)
  next
    case (Cons st' sts')
    then have "r \<noteq> 0" using Cons.prems(2) st by (simp add: stays_open_def)
    from status_keeps_open_order [OF this Cons.prems(1)]
    have t1: "tracked_order ?s1 k = Some (order\<lparr>remainingVolume := r, filledVolume := f\<rparr>)"
      and b1: "is_sell_order ?s1 k = is_sell_order s k" by simp_all
    have rest: "stays_open sts"
      using Cons.prems(2) Cons by (simp add: stays_open_def)
    from Cons.IH [OF t1 rest]
    have ih: "map hedge_of (snd (run lim (statuses_of k sts) ?s1)) =
          map (expected_hedge lim (is_sell_order s k)) (positive_increments f (map fst sts))"
      by (simp add: b1)
    have "snd (run lim (statuses_of k (st # sts)) s)
            = snd (status_on_side lim (is_sell_order s k) order k f r s)
              @ snd (run lim (statuses_of k sts) ?s1)"
      using head by (simp add: statuses_of_def st Let_def split: prod.splits)
    then show ?thesis
      using ih hedge_of_status [of lim "is_sell_order s k" order k f r s]
      by (simp add: st positive_increments_Cons [of _ f "map fst sts"])
  qed
qed

lemma lots_of_expected_hedges:
  "sum_list (map (hedge_lots \<circ> expected_hedge lim b) ds) = sum_list (map unat ds)"
  by (induction ds) (simp_all add: expected_hedge_def)

lemma lots_of_nonzero:
  "sum_list (map unat (filter (\<lambda>d. d \<noteq> 0) ds)) = sum_list (map unat ds)"
  by (induction ds) simp_all

lemma lots_of_positive_increments:
  "sum_list (map unat (positive_increments f0 fs)) = sum_list (map unat (increments f0 fs))"
  by (simp add: positive_increments_def lots_of_nonzero)

lemma increments_telescope:
  "sorted (f0 # fs) \<Longrightarrow> unat f0 + sum_list (map unat (increments f0 fs)) = unat (last (f0 # fs))"
proof (induction fs arbitrary: f0)
  case Nil
  then show ?case by simp
next
  case (Cons f fs)
  then have le: "f0 \<le> f" and rest: "sorted (f # fs)" by simp_all
  from le have "unat (f - f0) = unat f - unat f0" by (rule unat_sub)
  moreover from le have "unat f0 \<le> unat f" by (simp add: word_le_nat_alt)
  ultimately show ?case using Cons.IH [OF rest] by simp
qed

text \<open>
  C2. The trader tracks the order \<open>clientOrderId\<close>, with \<open>filledVolume order\<close> lots filled
  so far (0 for an order as it is inserted). It receives a sequence of statuses of this
  order whose filled volumes do not decrease and of which only the last may report a
  remaining volume of 0, so that each arrives while the order is tracked. The commands sent
  are hedge orders, one for each status that raises the filled volume, on the side
  opposite the order's, at \<open>MAX_ASK_NEAREST_TICK\<close> for a sell order and at
  \<open>MIN_BID_NEARST_TICK\<close> for a buy order, of as many lots as the filled volume went up by.
  Their volumes add up to the last filled volume reported, less what was filled before
  the sequence.
\<close>

theorem hedge_volume_accounting:
  assumes "tracked_order s clientOrderId = Some order"
      and "sorted (filledVolume order # map fst sts)"
      and "stays_open sts"
      and "run lim (statuses_of clientOrderId sts) s = (s', sent)"
  shows "unat (filledVolume order) + hedged_volume sent
           = unat (last (filledVolume order # map fst sts))
       \<and> map hedge_of sent
           = map (expected_hedge lim (is_sell_order s clientOrderId))
               (positive_increments (filledVolume order) (map fst sts))"
proof -
  have hedges: "map hedge_of sent
           = map (expected_hedge lim (is_sell_order s clientOrderId))
               (positive_increments (filledVolume order) (map fst sts))"
    using hedges_of_statuses [OF assms(1,3), of lim] assms(4) by simp
  have "hedged_volume sent = sum_list (map hedge_lots (map hedge_of sent))"
    by (simp add: hedged_volume_def)
  also have "\<dots> = sum_list (map unat (increments (filledVolume order) (map fst sts)))"
    unfolding hedges
    by (simp add: lots_of_expected_hedges lots_of_positive_increments)
  finally show ?thesis
    using increments_telescope [OF assms(2)] hedges by simp
qed

text \<open>The sell order 1 of 20 lots: 4 lots filled, then the other 16.\<close>

theorem hedge_volume_accounting_witness:
  "tracked_order quoted_once 1
      = Some \<lparr>price = 10000, remainingVolume = 20, filledVolume = 0, cancelling = False\<rparr>
   \<and> sorted (0 # map fst [(4 :: ulong, 16 :: ulong, 0 :: slong), (20, 0, 0)])
   \<and> stays_open [(4, 16, 0), (20, 0, 0)]
   \<and> hedged_volume (snd (run example_limits (statuses_of 1 [(4, 16, 0), (20, 0, 0)]) quoted_once)) = 20
   \<and> map hedge_of (snd (run example_limits (statuses_of 1 [(4, 16, 0), (20, 0, 0)]) quoted_once))
       = [Some (BUY, MAX_ASK_NEAREST_TICK example_limits, 4),
          Some (BUY, MAX_ASK_NEAREST_TICK example_limits, 16)]"
proof -
  let ?order = "\<lparr>price = 10000, remainingVolume = 20, filledVolume = 0, cancelling = False\<rparr>"
  let ?sts = "[(4 :: ulong, 16 :: ulong, 0 :: slong), (20, 0, 0)]"
  have t: "tracked_order quoted_once 1 = Some ?order"
    by (simp add: tracked_order_def quoted_once_eq)
  have m: "sorted (filledVolume ?order # map fst ?sts)" by simp
  have o: "stays_open ?sts" by (simp add: stays_open_def)
  have r: "run example_limits (statuses_of 1 ?sts) quoted_once
             = (fst (run example_limits (statuses_of 1 ?sts) quoted_once),
                snd (run example_limits (statuses_of 1 ?sts) quoted_once))"
    by simp
  have sell: "is_sell_order quoted_once 1"
    by (simp add: is_sell_order_def quoted_once_eq)
  from hedge_volume_accounting [OF t m o r] t o sell
  show ?thesis
    by (simp add: positive_increments_def expected_hedge_def)
qed

subsection \<open>What the handlers do to the maps and the counts\<close>

lemma unflag_keys: "map fst (unflag m) = map fst m"
  by (simp add: unflag_def comp_def)

lemma unflag_same_keys: "unflag m' = unflag m \<Longrightarrow> map fst m' = map fst m"
  using unflag_keys [of m'] unflag_keys [of m] by simp

lemma unflag_same_length: "unflag m' = unflag m \<Longrightarrow> length m' = length m"
  using unflag_same_keys [of m' m] length_map [of fst m'] length_map [of fst m] by simp

lemma unflag_sell_loop: "unflag (fst (sell_loop p m l)) = unflag m"
  by (simp add: sell_loop_result unflag_def)

lemma unflag_buy_loop: "unflag (fst (buy_loop p m l)) = unflag m"
  by (simp add: buy_loop_result unflag_def)

lemma unflag_mark_cancelling: "unflag (mark_cancelling k m) = unflag m"
  by (induction m) (auto simp: mark_cancelling_def unflag_def)

lemma update_fresh_key: "k \<notin> set (map fst m) \<Longrightarrow> AList.update k v m = m @ [(k, v)]"
  by (induction m) auto

lemma length_delete_key:
  assumes "distinct (map fst m)" "k \<in> set (map fst m)"
  shows "Suc (length (AList.delete k m)) = length m"
proof -
  have "length (AList.delete k m) = length (removeAll k (map fst m))"
    using AList.delete_keys [of k m] length_map [of fst "AList.delete k m"] by simp
  also have "\<dots> = length (remove1 k (map fst m))"
    using assms(1) by (simp add: distinct_remove1_removeAll)
  also have "\<dots> = length m - 1"
    using assms(2) by (simp add: length_remove1)
  finally show ?thesis using assms(2) by (cases m) simp_all
qed

text \<open>
  \<open>RepriceSellOrders\<close> either returns without an insert, and then only the flags of
  \<open>mAsks\<close> have changed, or passes the placement guard and inserts one order under the next
  id. The commands before the insert are cancels.
\<close>

lemma RepriceSellOrders_effect:
  obtains asks2 sent2 where
    "unflag asks2 = unflag (mAsks s)"
    "\<forall>c \<in> set sent2. \<exists>k. c = CancelOrder k"
    "RepriceSellOrders lim askPrices askVolumes s = (s\<lparr>mAsks := asks2\<rparr>, sent2)
     \<or> (sell_guard_passed s
        \<and> RepriceSellOrders lim askPrices askVolumes s =
            (after_sell_insert lim askPrices asks2 s, sent2 @ [sell_insert lim askPrices s]))"
proof -
  let ?p = "new_ask_price lim askPrices s"
  obtain asks1 sent1 l where loop: "sell_loop ?p (mAsks s) sell_start = (asks1, sent1, l)"
    by (cases "sell_loop ?p (mAsks s) sell_start")
  let ?evict = "largestOrderId l \<noteq> 0 \<and> \<not> cancelling (largestOrder l)
                   \<and> MAX_ORDER_DEPTH - 1 \<le>s mETFOrderAskCount s"
  let ?asks2 = "if ?evict then mark_cancelling (largestOrderId l) asks1 else asks1"
  let ?sent2 = "if ?evict then sent1 @ [CancelOrder (largestOrderId l)] else sent1"
  have "unflag asks1 = unflag (mAsks s)"
    using unflag_sell_loop [of ?p "mAsks s" sell_start] loop by simp
  then have u: "unflag ?asks2 = unflag (mAsks s)"
    by (simp add: unflag_mark_cancelling)
  have "sent1 = map (\<lambda>e. CancelOrder (fst e))
                 (filter (\<lambda>e. \<not> cancelling (snd e) \<and> price (snd e) < ?p) (mAsks s))"
    using sell_loop_result [of ?p "mAsks s" sell_start] loop by simp
  then have "\<forall>c \<in> set sent1. \<exists>k. c = CancelOrder k" by auto
  then have c: "\<forall>c \<in> set ?sent2. \<exists>k. c = CancelOrder k" by auto
  have "RepriceSellOrders lim askPrices askVolumes s = (s\<lparr>mAsks := ?asks2\<rparr>, ?sent2)
     \<or> (sell_guard_passed s
        \<and> RepriceSellOrders lim askPrices askVolumes s =
            (after_sell_insert lim askPrices ?asks2 s, ?sent2 @ [sell_insert lim askPrices s]))"
    using loop
    by (simp add: RepriceSellOrders_def Let_def sell_guard_passed_def sell_order_volume_def
          after_sell_insert_def sell_insert_def)
  with u c show ?thesis by (rule that)
qed

lemma RepriceBuyOrders_effect:
  obtains bids2 sent2 where
    "unflag bids2 = unflag (mBids s)"
    "\<forall>c \<in> set sent2. \<exists>k. c = CancelOrder k"
    "RepriceBuyOrders lim bidPrices bidVolumes s = (s\<lparr>mBids := bids2\<rparr>, sent2)
     \<or> (buy_guard_passed s
        \<and> RepriceBuyOrders lim bidPrices bidVolumes s =
            (after_buy_insert bidPrices bids2 s, sent2 @ [buy_insert bidPrices s]))"
proof -
  let ?p = "new_bid_price bidPrices s"
  obtain bids1 sent1 l where loop: "buy_loop ?p (mBids s) (buy_start lim) = (bids1, sent1, l)"
    by (cases "buy_loop ?p (mBids s) (buy_start lim)")
  let ?evict = "smallestOrderId l \<noteq> 0 \<and> \<not> cancelling (smallestOrder l)
                   \<and> MAX_ORDER_DEPTH - 1 \<le>s mETFOrderBidCount s"
  let ?bids2 = "if ?evict then mark_cancelling (smallestOrderId l) bids1 else bids1"
  let ?sent2 = "if ?evict then sent1 @ [CancelOrder (smallestOrderId l)] else sent1"
  have "unflag bids1 = unflag (mBids s)"
    using unflag_buy_loop [of ?p "mBids s" "buy_start lim"] loop by simp
  then have u: "unflag ?bids2 = unflag (mBids s)"
    by (simp add: unflag_mark_cancelling)
  have "sent1 = map (\<lambda>e. CancelOrder (fst e))
                 (filter (\<lambda>e. \<not> cancelling (snd e) \<and> ?p < price (snd e)) (mBids s))"
    using buy_loop_result [of ?p "mBids s" "buy_start lim"] loop by simp
  then have "\<forall>c \<in> set sent1. \<exists>k. c = CancelOrder k" by auto
  then have c: "\<forall>c \<in> set ?sent2. \<exists>k. c = CancelOrder k" by auto
  have "RepriceBuyOrders lim bidPrices bidVolumes s = (s\<lparr>mBids := ?bids2\<rparr>, ?sent2)
     \<or> (buy_guard_passed s
        \<and> RepriceBuyOrders lim bidPrices bidVolumes s =
            (after_buy_insert bidPrices ?bids2 s, ?sent2 @ [buy_insert bidPrices s]))"
    using loop
    by (simp add: RepriceBuyOrders_def Let_def buy_guard_passed_def buy_order_volume_def
          after_buy_insert_def buy_insert_def)
  with u c show ?thesis by (rule that)
qed

lemma unat_succ_64: "unat x + 1 < 2 ^ 64 \<Longrightarrow> unat (x + 1 :: 64 word) = unat x + 1"
  using unat_add_lem [of x 1] by simp

lemma sint_succ_64:
  fixes c :: "64 word"
  assumes "- (2 ^ 62) \<le> sint c" "sint c < 2 ^ 62"
  shows "sint (c + 1) = sint c + 1"
  using sint_add_64 [of c 1] assms by simp

lemma sint_pred_64:
  fixes c :: "64 word"
  assumes "- (2 ^ 62) \<le> sint c" "sint c < 2 ^ 62"
  shows "sint (c - 1) = sint c - 1"
  using sint_sub_64 [of c 1] assms by simp

lemma not_at_depth: "\<not> MAX_ORDER_DEPTH \<le>s c \<Longrightarrow> sint c < 5"
  by (simp add: word_sle_eq MAX_ORDER_DEPTH_def)

text \<open>The members after a status of an order of \<open>mAsks\<close>, and of an order of \<open>mBids\<close>.\<close>

lemma status_on_sell_side:
  "fst (status_on_side lim True order k f r s) =
     s\<lparr>mETFPosition := mETFPosition s - (f - filledVolume order),
        mNextMessageId := (if f \<noteq> filledVolume order then mNextMessageId s + 1 else mNextMessageId s),
        mETFOrderPositionSell := mETFOrderPositionSell s - (remainingVolume order - r),
        mETFOrderAskCount := (if r \<noteq> 0 then mETFOrderAskCount s else mETFOrderAskCount s - 1),
        mAsks := (if r \<noteq> 0
                  then AList.update k (order\<lparr>remainingVolume := r, filledVolume := f\<rparr>) (mAsks s)
                  else AList.delete k (mAsks s))\<rparr>"
  by (simp add: status_on_side_def Let_def word_greater_zero_iff split: prod.splits)

lemma status_on_buy_side:
  "fst (status_on_side lim False order k f r s) =
     s\<lparr>mETFPosition := mETFPosition s + (f - filledVolume order),
        mNextMessageId := (if f \<noteq> filledVolume order then mNextMessageId s + 1 else mNextMessageId s),
        mETFOrderPositionBuy := mETFOrderPositionBuy s - (remainingVolume order - r),
        mETFOrderBidCount := (if r \<noteq> 0 then mETFOrderBidCount s else mETFOrderBidCount s - 1),
        mBids := (if r \<noteq> 0
                  then AList.update k (order\<lparr>remainingVolume := r, filledVolume := f\<rparr>) (mBids s)
                  else AList.delete k (mBids s))\<rparr>"
  by (simp add: status_on_side_def Let_def word_greater_zero_iff split: prod.splits)

lemma key_of_entry: "map_of m k = Some v \<Longrightarrow> k \<in> set (map fst m)"
  by (metis map_of_SomeD set_map image_eqI fst_conv)

text \<open>The map after a status of one of its orders: the keys, and the number of entries.\<close>

lemma map_after_status:
  assumes "distinct (map fst m)" and "map_of m k = Some order"
  shows "distinct (map fst (if r \<noteq> (0 :: ulong) then AList.update k order' m else AList.delete k m))"
    and "set (map fst (if r \<noteq> 0 then AList.update k order' m else AList.delete k m)) \<subseteq> set (map fst m)"
    and "int (length (if r \<noteq> 0 then AList.update k order' m else AList.delete k m))
           = (if r \<noteq> 0 then int (length m) else int (length m) - 1)"
proof -
  have k: "k \<in> set (map fst m)" using assms(2) by (rule key_of_entry)
  then have keys: "map fst (AList.update k order' m) = map fst m"
    by (simp add: AList.update_keys)
  show "distinct (map fst (if r \<noteq> 0 then AList.update k order' m else AList.delete k m))"
    using assms(1) keys by (simp add: AList.distinct_delete)
  have "fst ` set (AList.update k order' m) = fst ` set m"
    using keys by (metis set_map)
  then show "set (map fst (if r \<noteq> 0 then AList.update k order' m else AList.delete k m)) \<subseteq> set (map fst m)"
    using AList.dom_delete_subset [of k m] by simp
  have "length (AList.update k order' m) = length m"
    using keys length_map [of fst "AList.update k order' m"] length_map [of fst m] by simp
  then show "int (length (if r \<noteq> 0 then AList.update k order' m else AList.delete k m))
           = (if r \<noteq> 0 then int (length m) else int (length m) - 1)"
    using length_delete_key [OF assms(1) k] by simp
qed

subsection \<open>The two invariants are kept\<close>

lemma reprice_sell_keeps:
  assumes "ids_fresh s" and "counts_ok s" and "unat (mNextMessageId s) + 1 < 2 ^ 64"
  shows "ids_fresh (fst (RepriceSellOrders lim askPrices askVolumes s))
       \<and> counts_ok (fst (RepriceSellOrders lim askPrices askVolumes s))
       \<and> unat (mNextMessageId (fst (RepriceSellOrders lim askPrices askVolumes s)))
           \<le> unat (mNextMessageId s) + 1"
proof -
  obtain asks2 sent2 where u: "unflag asks2 = unflag (mAsks s)"
    and r: "RepriceSellOrders lim askPrices askVolumes s = (s\<lparr>mAsks := asks2\<rparr>, sent2)
     \<or> (sell_guard_passed s
        \<and> RepriceSellOrders lim askPrices askVolumes s =
            (after_sell_insert lim askPrices asks2 s, sent2 @ [sell_insert lim askPrices s]))"
    by (rule RepriceSellOrders_effect [where s = s and lim = lim and askPrices = askPrices
          and askVolumes = askVolumes]) blast
  have keys: "map fst asks2 = map fst (mAsks s)" using u by (rule unflag_same_keys)
  have len: "length asks2 = length (mAsks s)" using u by (rule unflag_same_length)
  from r show ?thesis
  proof
    assume "RepriceSellOrders lim askPrices askVolumes s = (s\<lparr>mAsks := asks2\<rparr>, sent2)"
    then show ?thesis
      using assms(1,2) keys len by (simp add: ids_fresh_def counts_ok_def)
  next
    assume ins: "sell_guard_passed s
        \<and> RepriceSellOrders lim askPrices askVolumes s =
            (after_sell_insert lim askPrices asks2 s, sent2 @ [sell_insert lim askPrices s])"
    have below: "\<forall>k \<in> set (map fst asks2). unat k < unat (mNextMessageId s)"
      using assms(1) keys by (simp add: ids_fresh_def)
    then have fresh: "mNextMessageId s \<notin> set (map fst asks2)" by blast
    have next_id: "unat (mNextMessageId s + 1) = unat (mNextMessageId s) + 1"
      using assms(3) by (rule unat_succ_64)
    have room: "sint (mETFOrderAskCount s) < 5"
      using ins by (simp add: not_at_depth sell_guard_passed_def)
    have count: "sint (mETFOrderAskCount s + 1) = sint (mETFOrderAskCount s) + 1"
      using assms(2) by (intro sint_succ_64) (simp_all add: counts_ok_def)
    have older: "\<forall>k \<in> set (map fst (mAsks s)) \<union> set (map fst (mBids s)).
                   unat k < unat (mNextMessageId s) + 1"
    proof -
      have "\<forall>k \<in> set (map fst (mAsks s)) \<union> set (map fst (mBids s)).
              unat k < unat (mNextMessageId s)"
        using assms(1) unfolding ids_fresh_def by blast
      then show ?thesis by (meson trans_less_add1)
    qed
    show ?thesis
      using ins assms(1,2) keys len next_id room count older fresh [unfolded keys]
      unfolding ids_fresh_def counts_ok_def
      by (simp add: update_fresh_key [OF fresh] after_sell_insert_def after_buy_insert_def)
  qed
qed

lemma reprice_buy_keeps:
  assumes "ids_fresh s" and "counts_ok s" and "unat (mNextMessageId s) + 1 < 2 ^ 64"
  shows "ids_fresh (fst (RepriceBuyOrders lim bidPrices bidVolumes s))
       \<and> counts_ok (fst (RepriceBuyOrders lim bidPrices bidVolumes s))
       \<and> unat (mNextMessageId (fst (RepriceBuyOrders lim bidPrices bidVolumes s)))
           \<le> unat (mNextMessageId s) + 1"
proof -
  obtain bids2 sent2 where u: "unflag bids2 = unflag (mBids s)"
    and r: "RepriceBuyOrders lim bidPrices bidVolumes s = (s\<lparr>mBids := bids2\<rparr>, sent2)
     \<or> (buy_guard_passed s
        \<and> RepriceBuyOrders lim bidPrices bidVolumes s =
            (after_buy_insert bidPrices bids2 s, sent2 @ [buy_insert bidPrices s]))"
    by (rule RepriceBuyOrders_effect [where s = s and lim = lim and bidPrices = bidPrices
          and bidVolumes = bidVolumes]) blast
  have keys: "map fst bids2 = map fst (mBids s)" using u by (rule unflag_same_keys)
  have len: "length bids2 = length (mBids s)" using u by (rule unflag_same_length)
  from r show ?thesis
  proof
    assume "RepriceBuyOrders lim bidPrices bidVolumes s = (s\<lparr>mBids := bids2\<rparr>, sent2)"
    then show ?thesis
      using assms(1,2) keys len by (simp add: ids_fresh_def counts_ok_def)
  next
    assume ins: "buy_guard_passed s
        \<and> RepriceBuyOrders lim bidPrices bidVolumes s =
            (after_buy_insert bidPrices bids2 s, sent2 @ [buy_insert bidPrices s])"
    have below: "\<forall>k \<in> set (map fst bids2). unat k < unat (mNextMessageId s)"
      using assms(1) keys by (simp add: ids_fresh_def)
    then have fresh: "mNextMessageId s \<notin> set (map fst bids2)" by blast
    have next_id: "unat (mNextMessageId s + 1) = unat (mNextMessageId s) + 1"
      using assms(3) by (rule unat_succ_64)
    have room: "sint (mETFOrderBidCount s) < 5"
      using ins by (simp add: not_at_depth buy_guard_passed_def)
    have count: "sint (mETFOrderBidCount s + 1) = sint (mETFOrderBidCount s) + 1"
      using assms(2) by (intro sint_succ_64) (simp_all add: counts_ok_def)
    have older: "\<forall>k \<in> set (map fst (mAsks s)) \<union> set (map fst (mBids s)).
                   unat k < unat (mNextMessageId s) + 1"
    proof -
      have "\<forall>k \<in> set (map fst (mAsks s)) \<union> set (map fst (mBids s)).
              unat k < unat (mNextMessageId s)"
        using assms(1) unfolding ids_fresh_def by blast
      then show ?thesis by (meson trans_less_add1)
    qed
    show ?thesis
      using ins assms(1,2) keys len next_id room count older fresh [unfolded keys]
      unfolding ids_fresh_def counts_ok_def
      by (simp add: update_fresh_key [OF fresh] after_sell_insert_def after_buy_insert_def)
  qed
qed

lemma status_sell_keeps:
  assumes "ids_fresh s" and "counts_ok s" and "unat (mNextMessageId s) + 1 < 2 ^ 64"
      and "map_of (mAsks s) k = Some order"
  shows "ids_fresh (fst (status_on_side lim True order k f r s))
       \<and> counts_ok (fst (status_on_side lim True order k f r s))
       \<and> unat (mNextMessageId (fst (status_on_side lim True order k f r s)))
           \<le> unat (mNextMessageId s) + 1"
proof -
  let ?order' = "order\<lparr>remainingVolume := r, filledVolume := f\<rparr>"
  let ?asks' = "if r \<noteq> 0 then AList.update k ?order' (mAsks s) else AList.delete k (mAsks s)"
  have d: "distinct (map fst (mAsks s))" using assms(1) by (simp add: ids_fresh_def)
  note m = map_after_status [OF d assms(4), of r ?order']
  have next_id: "unat (mNextMessageId s + 1) = unat (mNextMessageId s) + 1"
    using assms(3) by (rule unat_succ_64)
  have nonempty: "0 < length (mAsks s)"
    using key_of_entry [OF assms(4)] by (cases "mAsks s") simp_all
  have count: "sint (mETFOrderAskCount s - 1) = sint (mETFOrderAskCount s) - 1"
    using assms(2) by (intro sint_pred_64) (simp_all add: counts_ok_def)
  have below: "\<forall>k \<in> set (map fst ?asks') \<union> set (map fst (mBids s)).
                 unat k < unat (mNextMessageId s)"
    using assms(1) m(2) unfolding ids_fresh_def by blast
  then have below': "\<forall>k \<in> set (map fst ?asks') \<union> set (map fst (mBids s)).
                 unat k < unat (mNextMessageId s) + 1"
    by (meson trans_less_add1)
  have len: "length ?asks' \<le> 5"
    using m(3) assms(2) by (simp add: counts_ok_def split: if_splits)
  have ids: "ids_fresh (fst (status_on_side lim True order k f r s))"
    using m(1) below below' assms(1) next_id
    unfolding ids_fresh_def by (simp add: status_on_sell_side del: set_map)
  have counts: "counts_ok (fst (status_on_side lim True order k f r s))"
    using m(3) len count assms(2) nonempty
    unfolding counts_ok_def by (simp add: status_on_sell_side)
  show ?thesis
    using ids counts next_id by (simp add: status_on_sell_side)
qed

lemma status_buy_keeps:
  assumes "ids_fresh s" and "counts_ok s" and "unat (mNextMessageId s) + 1 < 2 ^ 64"
      and "map_of (mBids s) k = Some order"
  shows "ids_fresh (fst (status_on_side lim False order k f r s))
       \<and> counts_ok (fst (status_on_side lim False order k f r s))
       \<and> unat (mNextMessageId (fst (status_on_side lim False order k f r s)))
           \<le> unat (mNextMessageId s) + 1"
proof -
  let ?order' = "order\<lparr>remainingVolume := r, filledVolume := f\<rparr>"
  let ?bids' = "if r \<noteq> 0 then AList.update k ?order' (mBids s) else AList.delete k (mBids s)"
  have d: "distinct (map fst (mBids s))" using assms(1) by (simp add: ids_fresh_def)
  note m = map_after_status [OF d assms(4), of r ?order']
  have next_id: "unat (mNextMessageId s + 1) = unat (mNextMessageId s) + 1"
    using assms(3) by (rule unat_succ_64)
  have nonempty: "0 < length (mBids s)"
    using key_of_entry [OF assms(4)] by (cases "mBids s") simp_all
  have count: "sint (mETFOrderBidCount s - 1) = sint (mETFOrderBidCount s) - 1"
    using assms(2) by (intro sint_pred_64) (simp_all add: counts_ok_def)
  have below: "\<forall>k \<in> set (map fst (mAsks s)) \<union> set (map fst ?bids').
                 unat k < unat (mNextMessageId s)"
    using assms(1) m(2) unfolding ids_fresh_def by blast
  then have below': "\<forall>k \<in> set (map fst (mAsks s)) \<union> set (map fst ?bids').
                 unat k < unat (mNextMessageId s) + 1"
    by (meson trans_less_add1)
  have len: "length ?bids' \<le> 5"
    using m(3) assms(2) by (simp add: counts_ok_def split: if_splits)
  have ids: "ids_fresh (fst (status_on_side lim False order k f r s))"
    using m(1) below below' assms(1) next_id
    unfolding ids_fresh_def by (simp add: status_on_buy_side del: set_map)
  have counts: "counts_ok (fst (status_on_side lim False order k f r s))"
    using m(3) len count assms(2) nonempty
    unfolding counts_ok_def by (simp add: status_on_buy_side)
  show ?thesis
    using ids counts next_id by (simp add: status_on_buy_side)
qed

lemma status_keeps:
  assumes "ids_fresh s" and "counts_ok s" and "unat (mNextMessageId s) + 1 < 2 ^ 64"
  shows "ids_fresh (fst (OrderStatusMessageHandler lim k f r fees s))
       \<and> counts_ok (fst (OrderStatusMessageHandler lim k f r fees s))
       \<and> unat (mNextMessageId (fst (OrderStatusMessageHandler lim k f r fees s)))
           \<le> unat (mNextMessageId s) + 1"
proof (cases "map_of (mAsks s) k")
  case (Some order)
  then show ?thesis
    using status_sell_keeps [OF assms Some] by (simp add: OrderStatusMessageHandler_def)
next
  case None
  show ?thesis
  proof (cases "map_of (mBids s) k")
    case (Some order)
    then show ?thesis
      using status_buy_keeps [OF assms Some] None by (simp add: OrderStatusMessageHandler_def)
  next
    case none: None
    then show ?thesis
      using assms None by (simp add: OrderStatusMessageHandler_def)
  qed
qed

lemma deliver_keeps:
  assumes "ids_fresh s" and "counts_ok s" and "unat (mNextMessageId s) + 2 < 2 ^ 64"
  shows "ids_fresh (fst (deliver lim e s)) \<and> counts_ok (fst (deliver lim e s))
       \<and> unat (mNextMessageId (fst (deliver lim e s))) \<le> unat (mNextMessageId s) + 2"
proof (cases e)
  case (OrderBook instrument sequenceNumber askPrices askVolumes bidPrices bidVolumes)
  let ?s1 = "s\<lparr>mOrderBookSequence := sequenceNumber\<rparr>"
  let ?s2 = "fst (RepriceSellOrders lim askPrices askVolumes ?s1)"
  let ?s3 = "fst (RepriceBuyOrders lim bidPrices bidVolumes ?s2)"
  have s1: "ids_fresh ?s1" "counts_ok ?s1" "unat (mNextMessageId ?s1) + 1 < 2 ^ 64"
    using assms by (simp_all add: ids_fresh_def counts_ok_def)
  note sell = reprice_sell_keeps [OF s1, of lim askPrices askVolumes]
  then have s2: "ids_fresh ?s2" "counts_ok ?s2" "unat (mNextMessageId ?s2) + 1 < 2 ^ 64"
    using assms(3) by simp_all
  note buy = reprice_buy_keeps [OF s2, of lim bidPrices bidVolumes]
  have recorded: "ids_fresh (s\<lparr>mMarketMaxBid := b, mMarketMinAsk := a\<rparr>)
                \<and> counts_ok (s\<lparr>mMarketMaxBid := b, mMarketMinAsk := a\<rparr>)" for a b
    using assms by (simp add: ids_fresh_def counts_ok_def)
  have "deliver lim e s = (s\<lparr>mMarketMaxBid := bidPrices ! 0,
            mMarketMinAsk := (if askPrices ! 0 \<noteq> 0 then askPrices ! 0 else MAXIMUM_ASK lim)\<rparr>, [])
      \<or> deliver lim e s = (s, [])
      \<or> fst (deliver lim e s) = ?s3"
    by (simp add: OrderBook OrderBookMessageHandler_def Let_def split: prod.splits)
  then show ?thesis
    using recorded assms sell buy by auto
next
  case (OrderStatus k f r fees)
  have "unat (mNextMessageId s) + 1 < 2 ^ 64" using assms(3) by simp
  from status_keeps [OF assms(1,2) this, of lim k f r fees]
  show ?thesis by (simp add: OrderStatus)
next
  case (Error k msg)
  have "unat (mNextMessageId s) + 1 < 2 ^ 64" using assms(3) by simp
  from status_keeps [OF assms(1,2) this, of lim k 0 0 0] assms
  show ?thesis by (simp add: Error ErrorMessageHandler_def)
next
  case (OrderFilled k p v)
  then show ?thesis using assms by simp
next
  case (HedgeFilled k p v)
  then show ?thesis using assms by simp
next
  case (TradeTicks instrument sequenceNumber askPrices askVolumes bidPrices bidVolumes)
  then show ?thesis using assms by simp
qed

lemma run_Cons_fst: "fst (run lim (e # es) s) = fst (run lim es (fst (deliver lim e s)))"
  by (simp add: Let_def case_prod_beta)

lemma run_keeps:
  assumes "ids_fresh s" and "counts_ok s" and "unat (mNextMessageId s) + 2 * length es < 2 ^ 64"
  shows "ids_fresh (fst (run lim es s)) \<and> counts_ok (fst (run lim es s))"
  using assms
proof (induction es arbitrary: s)
  case Nil
  then show ?case by simp
next
  case (Cons e es)
  have "unat (mNextMessageId s) + 2 < 2 ^ 64" using Cons.prems(3) by simp
  from deliver_keeps [OF Cons.prems(1,2) this, of lim e]
  have s1: "ids_fresh (fst (deliver lim e s))" "counts_ok (fst (deliver lim e s))"
    and "unat (mNextMessageId (fst (deliver lim e s))) \<le> unat (mNextMessageId s) + 2"
    by simp_all
  then have "unat (mNextMessageId (fst (deliver lim e s))) + 2 * length es < 2 ^ 64"
    using Cons.prems(3) by simp
  from Cons.IH [OF s1 this] show ?case
    by (simp only: run_Cons_fst)
qed

lemma initial_trader_ok: "ids_fresh (initial_trader b a) \<and> counts_ok (initial_trader b a)"
  by (simp add: ids_fresh_def counts_ok_def initial_trader_def)

subsection \<open>The order counts\<close>

text \<open>
  C9, as the code has it. In the trader reached from the initial one by fewer than
  \<open>2^63\<close> events (each event gives out at most two ids, so no id has been given out
  twice), \<open>mETFOrderAskCount\<close> is the number of orders in \<open>mAsks\<close>, whether cancelling
  or not, \<open>mETFOrderBidCount\<close> is the number of orders in \<open>mBids\<close>, and neither is above
  \<open>MAX_ORDER_DEPTH\<close>. A count goes up when an order is inserted and down when a status
  reports that nothing remains of it; a cancel sent for an order leaves the count as it is.
\<close>

theorem order_counts:
  assumes "length es < 2 ^ 63"
  shows "distinct (map fst (mAsks (reached lim maxBid minAsk es)))
       \<and> sint (mETFOrderAskCount (reached lim maxBid minAsk es))
            = int (length (mAsks (reached lim maxBid minAsk es)))
       \<and> mETFOrderAskCount (reached lim maxBid minAsk es) \<le>s MAX_ORDER_DEPTH
       \<and> distinct (map fst (mBids (reached lim maxBid minAsk es)))
       \<and> sint (mETFOrderBidCount (reached lim maxBid minAsk es))
            = int (length (mBids (reached lim maxBid minAsk es)))
       \<and> mETFOrderBidCount (reached lim maxBid minAsk es) \<le>s MAX_ORDER_DEPTH"
proof -
  have "unat (mNextMessageId (initial_trader maxBid minAsk)) + 2 * length es < 2 ^ 64"
    using assms by (simp add: initial_trader_def)
  from run_keeps [OF _ _ this, of lim] initial_trader_ok [of maxBid minAsk]
  have "ids_fresh (reached lim maxBid minAsk es)" and "counts_ok (reached lim maxBid minAsk es)"
    by (simp_all add: reached_def)
  then show ?thesis
    by (simp add: ids_fresh_def counts_ok_def word_sle_eq MAX_ORDER_DEPTH_def)
qed

text \<open>
  The trader after two FUTURE books, the second with a higher ask: the first sell order
  has been sent a cancel and a second one has been inserted.
\<close>

theorem order_counts_witness:
  "length [future_book 1 10000 9000, future_book 2 10200 9000] < 2 ^ 63
   \<and> length (mAsks (reached example_limits 0 0 [future_book 1 10000 9000, future_book 2 10200 9000])) = 2
   \<and> sint (mETFOrderAskCount (reached example_limits 0 0 [future_book 1 10000 9000, future_book 2 10200 9000])) = 2
   \<and> length (mBids (reached example_limits 0 0 [future_book 1 10000 9000, future_book 2 10200 9000])) = 1
   \<and> sint (mETFOrderBidCount (reached example_limits 0 0 [future_book 1 10000 9000, future_book 2 10200 9000])) = 1"
proof -
  have short: "length [future_book 1 10000 9000, future_book 2 10200 9000] < 2 ^ 63" by simp
  have asks: "length (mAsks (reached example_limits 0 0 [future_book 1 10000 9000, future_book 2 10200 9000])) = 2"
    by code_simp
  have bids: "length (mBids (reached example_limits 0 0 [future_book 1 10000 9000, future_book 2 10200 9000])) = 1"
    by code_simp
  from order_counts [OF short, of example_limits 0 0] asks bids short
  show ?thesis by simp
qed

text \<open>
  C9, as stated, fails: after the same two books \<open>mETFOrderAskCount\<close> is 2, and one
  order of \<open>mAsks\<close> is not cancelling.
\<close>

theorem count_includes_cancelling_orders:
  "mETFOrderAskCount (reached example_limits 0 0 [future_book 1 10000 9000, future_book 2 10200 9000]) = 2
   \<and> length (non_cancelling (mAsks (reached example_limits 0 0
         [future_book 1 10000 9000, future_book 2 10200 9000]))) = 1"
  by code_simp

subsection \<open>An order is tracked on one side\<close>

lemma reprice_sell_sides:
  "set (map fst (mAsks (fst (RepriceSellOrders lim askPrices askVolumes s))))
     \<subseteq> insert (mNextMessageId s) (set (map fst (mAsks s)))
   \<and> mBids (fst (RepriceSellOrders lim askPrices askVolumes s)) = mBids s"
proof -
  obtain asks2 sent2 where u: "unflag asks2 = unflag (mAsks s)"
    and r: "RepriceSellOrders lim askPrices askVolumes s = (s\<lparr>mAsks := asks2\<rparr>, sent2)
     \<or> (sell_guard_passed s
        \<and> RepriceSellOrders lim askPrices askVolumes s =
            (after_sell_insert lim askPrices asks2 s, sent2 @ [sell_insert lim askPrices s]))"
    by (rule RepriceSellOrders_effect [where s = s and lim = lim and askPrices = askPrices
          and askVolumes = askVolumes]) blast
  have img: "fst ` set asks2 = fst ` set (mAsks s)"
    using unflag_same_keys [OF u] by (metis set_map)
  from r show ?thesis
  proof (elim disjE conjE)
    assume "RepriceSellOrders lim askPrices askVolumes s = (s\<lparr>mAsks := asks2\<rparr>, sent2)"
    then show ?thesis by (simp add: img subset_insertI)
  next
    assume "RepriceSellOrders lim askPrices askVolumes s =
            (after_sell_insert lim askPrices asks2 s, sent2 @ [sell_insert lim askPrices s])"
    then show ?thesis by (simp add: after_sell_insert_def AList.dom_update img)
  qed
qed

lemma reprice_buy_sides:
  "set (map fst (mBids (fst (RepriceBuyOrders lim bidPrices bidVolumes s))))
     \<subseteq> insert (mNextMessageId s) (set (map fst (mBids s)))
   \<and> mAsks (fst (RepriceBuyOrders lim bidPrices bidVolumes s)) = mAsks s"
proof -
  obtain bids2 sent2 where u: "unflag bids2 = unflag (mBids s)"
    and r: "RepriceBuyOrders lim bidPrices bidVolumes s = (s\<lparr>mBids := bids2\<rparr>, sent2)
     \<or> (buy_guard_passed s
        \<and> RepriceBuyOrders lim bidPrices bidVolumes s =
            (after_buy_insert bidPrices bids2 s, sent2 @ [buy_insert bidPrices s]))"
    by (rule RepriceBuyOrders_effect [where s = s and lim = lim and bidPrices = bidPrices
          and bidVolumes = bidVolumes]) blast
  have img: "fst ` set bids2 = fst ` set (mBids s)"
    using unflag_same_keys [OF u] by (metis set_map)
  from r show ?thesis
  proof (elim disjE conjE)
    assume "RepriceBuyOrders lim bidPrices bidVolumes s = (s\<lparr>mBids := bids2\<rparr>, sent2)"
    then show ?thesis by (simp add: img subset_insertI)
  next
    assume "RepriceBuyOrders lim bidPrices bidVolumes s =
            (after_buy_insert bidPrices bids2 s, sent2 @ [buy_insert bidPrices s])"
    then show ?thesis by (simp add: after_buy_insert_def AList.dom_update img)
  qed
qed

lemma status_sides:
  "set (map fst (mAsks (fst (OrderStatusMessageHandler lim k f r fees s))))
     \<subseteq> set (map fst (mAsks s))
   \<and> set (map fst (mBids (fst (OrderStatusMessageHandler lim k f r fees s))))
     \<subseteq> set (map fst (mBids s))"
proof (cases "map_of (mAsks s) k")
  case (Some order)
  then have "k \<in> fst ` set (mAsks s)" using key_of_entry [of "mAsks s" k order] by simp
  then show ?thesis
    using Some AList.dom_delete_subset [of k "mAsks s"]
    by (auto simp: OrderStatusMessageHandler_def status_on_sell_side AList.dom_update)
next
  case None
  show ?thesis
  proof (cases "map_of (mBids s) k")
    case (Some order)
    then have "k \<in> fst ` set (mBids s)" using key_of_entry [of "mBids s" k order] by simp
    then show ?thesis
      using Some None AList.dom_delete_subset [of k "mBids s"]
      by (auto simp: OrderStatusMessageHandler_def status_on_buy_side AList.dom_update)
  next
    case none: None
    then show ?thesis using None by (simp add: OrderStatusMessageHandler_def)
  qed
qed

lemma fresh_id_on_no_side:
  "ids_fresh s \<Longrightarrow> mNextMessageId s \<notin> set (map fst (mAsks s)) \<union> set (map fst (mBids s))"
  unfolding ids_fresh_def by blast

lemma reprice_sell_disjoint:
  assumes "ids_fresh s" and "sides_disjoint s"
  shows "sides_disjoint (fst (RepriceSellOrders lim askPrices askVolumes s))"
proof -
  let ?s' = "fst (RepriceSellOrders lim askPrices askVolumes s)"
  have a: "set (map fst (mAsks ?s')) \<subseteq> insert (mNextMessageId s) (set (map fst (mAsks s)))"
    and b: "mBids ?s' = mBids s"
    using reprice_sell_sides [of lim askPrices askVolumes s] by blast+
  show ?thesis
    unfolding sides_disjoint_def b
    using a fresh_id_on_no_side [OF assms(1)] assms(2) [unfolded sides_disjoint_def] by blast
qed

lemma reprice_buy_disjoint:
  assumes "ids_fresh s" and "sides_disjoint s"
  shows "sides_disjoint (fst (RepriceBuyOrders lim bidPrices bidVolumes s))"
proof -
  let ?s' = "fst (RepriceBuyOrders lim bidPrices bidVolumes s)"
  have a: "set (map fst (mBids ?s')) \<subseteq> insert (mNextMessageId s) (set (map fst (mBids s)))"
    and b: "mAsks ?s' = mAsks s"
    using reprice_buy_sides [of lim bidPrices bidVolumes s] by blast+
  show ?thesis
    unfolding sides_disjoint_def b
    using a fresh_id_on_no_side [OF assms(1)] assms(2) [unfolded sides_disjoint_def] by blast
qed

lemma status_disjoint:
  assumes "sides_disjoint s"
  shows "sides_disjoint (fst (OrderStatusMessageHandler lim k f r fees s))"
  unfolding sides_disjoint_def
  using status_sides [of lim k f r fees s] assms [unfolded sides_disjoint_def] by blast

lemma deliver_sides:
  assumes "ids_fresh s" and "counts_ok s" and "sides_disjoint s"
      and "unat (mNextMessageId s) + 2 < 2 ^ 64"
  shows "sides_disjoint (fst (deliver lim e s))"
proof (cases e)
  case (OrderBook instrument sequenceNumber askPrices askVolumes bidPrices bidVolumes)
  let ?s1 = "s\<lparr>mOrderBookSequence := sequenceNumber\<rparr>"
  let ?s2 = "fst (RepriceSellOrders lim askPrices askVolumes ?s1)"
  let ?s3 = "fst (RepriceBuyOrders lim bidPrices bidVolumes ?s2)"
  have s1: "ids_fresh ?s1" "counts_ok ?s1" "unat (mNextMessageId ?s1) + 1 < 2 ^ 64"
    using assms by (simp_all add: ids_fresh_def counts_ok_def)
  have i2: "ids_fresh ?s2"
    using reprice_sell_keeps [OF s1, of lim askPrices askVolumes] by simp
  have d1: "sides_disjoint ?s1" using assms(3) by (simp add: sides_disjoint_def)
  have d2: "sides_disjoint ?s2" using s1(1) d1 by (rule reprice_sell_disjoint)
  have d3: "sides_disjoint ?s3" using i2 d2 by (rule reprice_buy_disjoint)
  have recorded: "sides_disjoint (s\<lparr>mMarketMaxBid := b, mMarketMinAsk := a\<rparr>)" for a b
    using assms(3) by (simp add: sides_disjoint_def)
  have "deliver lim e s = (s\<lparr>mMarketMaxBid := bidPrices ! 0,
            mMarketMinAsk := (if askPrices ! 0 \<noteq> 0 then askPrices ! 0 else MAXIMUM_ASK lim)\<rparr>, [])
      \<or> deliver lim e s = (s, [])
      \<or> fst (deliver lim e s) = ?s3"
    by (simp add: OrderBook OrderBookMessageHandler_def Let_def split: prod.splits)
  then show ?thesis
    using recorded assms(3) d3 by auto
next
  case (OrderStatus k f r fees)
  then show ?thesis
    using status_disjoint [OF assms(3), of lim k f r fees] by simp
next
  case (Error k msg)
  then show ?thesis
    using status_disjoint [OF assms(3), of lim k 0 0 0] assms(3)
    by (simp add: ErrorMessageHandler_def)
next
  case (OrderFilled k p v)
  then show ?thesis using assms(3) by simp
next
  case (HedgeFilled k p v)
  then show ?thesis using assms(3) by simp
next
  case (TradeTicks instrument sequenceNumber askPrices askVolumes bidPrices bidVolumes)
  then show ?thesis using assms(3) by simp
qed

lemma run_sides:
  assumes "ids_fresh s" and "counts_ok s" and "sides_disjoint s"
      and "unat (mNextMessageId s) + 2 * length es < 2 ^ 64"
  shows "sides_disjoint (fst (run lim es s))"
  using assms
proof (induction es arbitrary: s)
  case Nil
  then show ?case by simp
next
  case (Cons e es)
  let ?s1 = "fst (deliver lim e s)"
  have step: "unat (mNextMessageId s) + 2 < 2 ^ 64" using Cons.prems(4) by simp
  from deliver_keeps [OF Cons.prems(1,2) step, of lim e]
  have s1: "ids_fresh ?s1" "counts_ok ?s1"
    and "unat (mNextMessageId ?s1) \<le> unat (mNextMessageId s) + 2"
    by simp_all
  then have bound: "unat (mNextMessageId ?s1) + 2 * length es < 2 ^ 64"
    using Cons.prems(4) by simp
  have d1: "sides_disjoint ?s1"
    using Cons.prems(1,2,3) step by (rule deliver_sides)
  from Cons.IH [OF s1 d1 bound] show ?case
    by (simp only: run_Cons_fst)
qed

text \<open>
  The hypothesis of C7 holds wherever the trader gets to: in the trader reached from the
  initial one by fewer than \<open>2^63\<close> events, an id that is a key of \<open>mAsks\<close> or of \<open>mBids\<close>
  is a key of exactly one of them.
\<close>

lemma tracked_on_one_side:
  assumes "length es < 2 ^ 63"
      and "tracked_order (reached lim maxBid minAsk es) clientOrderId \<noteq> None"
  shows "(map_of (mAsks (reached lim maxBid minAsk es)) clientOrderId \<noteq> None)
           \<noteq> (map_of (mBids (reached lim maxBid minAsk es)) clientOrderId \<noteq> None)"
proof -
  let ?s = "reached lim maxBid minAsk es"
  have "unat (mNextMessageId (initial_trader maxBid minAsk)) + 2 * length es < 2 ^ 64"
    using assms(1) by (simp add: initial_trader_def)
  from run_sides [OF _ _ _ this, of lim] initial_trader_ok [of maxBid minAsk]
  have "sides_disjoint ?s"
    by (simp add: reached_def sides_disjoint_def initial_trader_def)
  then have "\<not> (clientOrderId \<in> set (map fst (mAsks ?s)) \<and> clientOrderId \<in> set (map fst (mBids ?s)))"
    unfolding sides_disjoint_def by blast
  moreover have "map_of m clientOrderId \<noteq> None \<longleftrightarrow> clientOrderId \<in> set (map fst m)"
    for m :: order_map
    by (simp add: map_of_eq_None_iff)
  ultimately show ?thesis
    using assms(2) by (auto simp: tracked_order_def split: option.splits)
qed

subsection \<open>The position limit\<close>

text \<open>
  C1. The events of \<open>breaching_events\<close> are delivered in order to the initial trader.
  Every status among them is well formed. After the last event, the error that names the
  partly filled sell order 1, \<open>mETFPosition\<close> is 108, above \<open>POSITION_LIMIT\<close>: the handler
  has added the 19 lots that were filled back to the position, through the same
  \<open>unsigned long\<close> difference as in C6.
\<close>

theorem position_limit_breached:
  "statuses_well_formed example_limits breaching_events (initial_trader 0 0)
   \<and> mETFPosition (reached example_limits 0 0 breaching_events) = 108
   \<and> \<not> mETFPosition (reached example_limits 0 0 breaching_events) \<le>s POSITION_LIMIT"
  by code_simp

subsection \<open>The reserved volumes and the position under well-formed delivery\<close>

lemma sint_of_unat_64: "unat (x :: 64 word) < 2 ^ 63 \<Longrightarrow> sint x = int (unat x)"
proof -
  assume "unat x < 2 ^ 63"
  then have "int (unat x) < int (2 ^ 63)" by (simp only: of_nat_less_iff)
  then have lt: "uint x < 2 ^ 63" by simp
  have ge: "- (2 ^ 63) \<le> uint x" by (rule order_trans [of _ 0]) simp_all
  have "signed_take_bit 63 (uint x) = uint x"
    using ge lt by (rule signed_take_bit_int_eq_self)
  then show ?thesis by (simp add: sint_uint)
qed

lemma unat_of_sint_64: "0 \<le> sint (x :: 64 word) \<Longrightarrow> int (unat x) = sint x"
proof -
  assume a: "0 \<le> sint x"
  have "sint x < 2 ^ 64" using sint_lt [of x] by simp
  with a have "take_bit 64 (sint x) = sint x" by (rule take_bit_int_eq_self)
  then show ?thesis using uint_sint [of x] by simp
qed

lemma reserved_append: "reserved (m @ m') = reserved m + reserved m'"
  by (simp add: reserved_def)

lemma reserved_unflag: "reserved (unflag m) = reserved m"
  by (simp add: reserved_def unflag_def comp_def)

lemma unflag_same_reserved: "unflag m' = unflag m \<Longrightarrow> reserved m' = reserved m"
  using reserved_unflag [of m'] reserved_unflag [of m] by simp

lemma reserved_update_entry:
  assumes "distinct (map fst m)" and "map_of m k = Some order"
  shows "reserved (AList.update k order' m) + unat (remainingVolume order)
           = reserved m + unat (remainingVolume order')"
  using assms
proof (induction m)
  case Nil
  then show ?case by simp
next
  case (Cons e m)
  show ?case
  proof (cases "fst e = k")
    case True
    then have "snd e = order" using Cons.prems(2) by (cases e) simp
    then show ?thesis using True by (cases e) (simp add: reserved_def)
  next
    case False
    then have "map_of m k = Some order" using Cons.prems(2) by (cases e) simp
    then show ?thesis
      using Cons.IH Cons.prems(1) False by (cases e) (simp add: reserved_def)
  qed
qed

lemma reserved_delete_entry:
  assumes "distinct (map fst m)" and "map_of m k = Some order"
  shows "reserved (AList.delete k m) + unat (remainingVolume order) = reserved m"
  using assms
proof (induction m)
  case Nil
  then show ?case by simp
next
  case (Cons e m)
  show ?case
  proof (cases "fst e = k")
    case True
    then have "snd e = order" using Cons.prems(2) by (cases e) simp
    moreover have "k \<notin> fst ` set m" using Cons.prems(1) True by (cases e) auto
    ultimately show ?thesis using True by (cases e) (simp add: reserved_def)
  next
    case False
    then have "map_of m k = Some order" using Cons.prems(2) by (cases e) simp
    then show ?thesis
      using Cons.IH Cons.prems(1) False by (cases e) (simp add: reserved_def)
  qed
qed

lemma entry_le_reserved: "map_of m k = Some order \<Longrightarrow> unat (remainingVolume order) \<le> reserved m"
proof (induction m)
  case Nil
  then show ?case by simp
next
  case (Cons e m)
  then show ?case by (cases e) (auto simp: reserved_def split: if_splits)
qed

lemma ledger_bounds:
  assumes "ledger_ok s"
  shows "- 100 \<le> sint (mETFPosition s)" and "sint (mETFPosition s) \<le> 100"
    and "int (reserved (mAsks s)) \<le> 200" and "int (reserved (mBids s)) \<le> 200"
  using assms by (simp_all add: ledger_ok_def)

text \<open>The volume of a new sell order and the placement guard, read as integers.\<close>

lemma sell_volume:
  fixes pos :: slong
  assumes "- 100 \<le> sint pos" "sint pos \<le> 100"
  shows "sint (long_div (pos + POSITION_LIMIT) MAX_ORDER_DEPTH) = (sint pos + 100) div 5"
proof -
  have "sint (pos + 100) = sint pos + 100"
    using assms by (subst sint_add_64) simp_all
  then show ?thesis
    using assms unfolding POSITION_LIMIT_def MAX_ORDER_DEPTH_def
    by (subst sint_long_div) simp_all
qed

lemma buy_volume:
  fixes pos :: slong
  assumes "- 100 \<le> sint pos" "sint pos \<le> 100"
  shows "sint (long_div (POSITION_LIMIT - pos) MAX_ORDER_DEPTH) = (100 - sint pos) div 5"
proof -
  have "sint (100 - pos) = 100 - sint pos"
    using assms by (subst sint_sub_64) simp_all
  then show ?thesis
    using assms unfolding POSITION_LIMIT_def MAX_ORDER_DEPTH_def
    by (subst sint_long_div) simp_all
qed

lemma sell_guard:
  fixes pos rs v :: slong
  assumes "- 100 \<le> sint pos" "sint pos \<le> 100" "0 \<le> sint rs" "sint rs \<le> 200"
      and "0 \<le> sint v" "sint v \<le> 40"
  shows "(pos - rs - v <s - POSITION_LIMIT) = (sint pos - sint rs - sint v < - 100)"
proof -
  have "sint (pos - rs) = sint pos - sint rs"
    using assms by (subst sint_sub_64) simp_all
  then have "sint (pos - rs - v) = sint pos - sint rs - sint v"
    using assms by (subst sint_sub_64) simp_all
  then show ?thesis by (simp add: word_sless_alt POSITION_LIMIT_def)
qed

lemma buy_guard:
  fixes pos rb v :: slong
  assumes "- 100 \<le> sint pos" "sint pos \<le> 100" "0 \<le> sint rb" "sint rb \<le> 200"
      and "0 \<le> sint v" "sint v \<le> 40"
  shows "(POSITION_LIMIT <s pos + rb + v) = (100 < sint pos + sint rb + sint v)"
proof -
  have "sint (pos + rb) = sint pos + sint rb"
    using assms by (subst sint_add_64) simp_all
  then have "sint (pos + rb + v) = sint pos + sint rb + sint v"
    using assms by (subst sint_add_64) simp_all
  then show ?thesis by (simp add: word_sless_alt POSITION_LIMIT_def)
qed

text \<open>The commands of a repricing pass: cancels, and at most one insert, sent only when
  the placement guard has let it through.\<close>

lemma reprice_sell_commands:
  assumes "c \<in> set (snd (RepriceSellOrders lim askPrices askVolumes s))"
  shows "(\<exists>k. c = CancelOrder k) \<or> (c = sell_insert lim askPrices s \<and> sell_guard_passed s)"
proof -
  obtain asks2 sent2 where c: "\<forall>c \<in> set sent2. \<exists>k. c = CancelOrder k"
    and r: "RepriceSellOrders lim askPrices askVolumes s = (s\<lparr>mAsks := asks2\<rparr>, sent2)
     \<or> (sell_guard_passed s
        \<and> RepriceSellOrders lim askPrices askVolumes s =
            (after_sell_insert lim askPrices asks2 s, sent2 @ [sell_insert lim askPrices s]))"
    by (rule RepriceSellOrders_effect [where s = s and lim = lim and askPrices = askPrices
          and askVolumes = askVolumes]) blast
  from r assms c show ?thesis by auto
qed

lemma reprice_buy_commands:
  assumes "c \<in> set (snd (RepriceBuyOrders lim bidPrices bidVolumes s))"
  shows "(\<exists>k. c = CancelOrder k) \<or> (c = buy_insert bidPrices s \<and> buy_guard_passed s)"
proof -
  obtain bids2 sent2 where c: "\<forall>c \<in> set sent2. \<exists>k. c = CancelOrder k"
    and r: "RepriceBuyOrders lim bidPrices bidVolumes s = (s\<lparr>mBids := bids2\<rparr>, sent2)
     \<or> (buy_guard_passed s
        \<and> RepriceBuyOrders lim bidPrices bidVolumes s =
            (after_buy_insert bidPrices bids2 s, sent2 @ [buy_insert bidPrices s]))"
    by (rule RepriceBuyOrders_effect [where s = s and lim = lim and bidPrices = bidPrices
          and bidVolumes = bidVolumes]) blast
  from r assms c show ?thesis by auto
qed

lemma reprice_sell_ledger:
  assumes "ids_fresh s" and "ledger_ok s"
  shows "ledger_ok (fst (RepriceSellOrders lim askPrices askVolumes s))"
proof -
  obtain asks2 sent2 where u: "unflag asks2 = unflag (mAsks s)"
    and r: "RepriceSellOrders lim askPrices askVolumes s = (s\<lparr>mAsks := asks2\<rparr>, sent2)
     \<or> (sell_guard_passed s
        \<and> RepriceSellOrders lim askPrices askVolumes s =
            (after_sell_insert lim askPrices asks2 s, sent2 @ [sell_insert lim askPrices s]))"
    by (rule RepriceSellOrders_effect [where s = s and lim = lim and askPrices = askPrices
          and askVolumes = askVolumes]) blast
  let ?v = "sell_order_volume s"
  have keys: "map fst asks2 = map fst (mAsks s)" using u by (rule unflag_same_keys)
  have res: "reserved asks2 = reserved (mAsks s)" using u by (rule unflag_same_reserved)
  note b = ledger_bounds [OF assms(2)]
  have rs: "sint (mETFOrderPositionSell s) = int (reserved (mAsks s))"
    using assms(2) by (simp add: ledger_ok_def)
  have v: "sint ?v = (sint (mETFPosition s) + 100) div 5"
    unfolding sell_order_volume_def using b(1,2) by (rule sell_volume)
  then have v0: "0 \<le> sint ?v" and v40: "sint ?v \<le> 40" using b(1,2) by simp_all
  from r show ?thesis
  proof (elim disjE conjE)
    assume "RepriceSellOrders lim askPrices askVolumes s = (s\<lparr>mAsks := asks2\<rparr>, sent2)"
    then show ?thesis using assms(2) res by (simp add: ledger_ok_def)
  next
    assume pass: "sell_guard_passed s"
      and ins: "RepriceSellOrders lim askPrices askVolumes s =
            (after_sell_insert lim askPrices asks2 s, sent2 @ [sell_insert lim askPrices s])"
    have "\<forall>k \<in> set (map fst asks2). unat k < unat (mNextMessageId s)"
      using assms(1) keys by (simp add: ids_fresh_def)
    then have fresh: "mNextMessageId s \<notin> set (map fst asks2)" by blast
    have guard: "- 100 \<le> sint (mETFPosition s) - sint (mETFOrderPositionSell s) - sint ?v"
      using pass sell_guard [of "mETFPosition s" "mETFOrderPositionSell s" ?v] b rs v0 v40
      by (simp add: sell_guard_passed_def)
    have rs': "sint (mETFOrderPositionSell s + ?v) = sint (mETFOrderPositionSell s) + sint ?v"
      using b rs v0 v40 by (subst sint_add_64) simp_all
    have lots: "int (unat ?v) = sint ?v" using v0 by (rule unat_of_sint_64)
    have "int (reserved (asks2 @ [(mNextMessageId s,
             \<lparr>price = new_ask_price lim askPrices s, remainingVolume = ?v,
              filledVolume = 0, cancelling = False\<rparr>)]))
            = int (reserved (mAsks s)) + sint ?v"
      using res lots by (simp add: reserved_append) (simp add: reserved_def)
    then show ?thesis
      using ins assms(2) guard rs' rs
      by (simp add: ledger_ok_def after_sell_insert_def update_fresh_key [OF fresh])
  qed
qed

lemma reprice_buy_ledger:
  assumes "ids_fresh s" and "ledger_ok s"
  shows "ledger_ok (fst (RepriceBuyOrders lim bidPrices bidVolumes s))"
proof -
  obtain bids2 sent2 where u: "unflag bids2 = unflag (mBids s)"
    and r: "RepriceBuyOrders lim bidPrices bidVolumes s = (s\<lparr>mBids := bids2\<rparr>, sent2)
     \<or> (buy_guard_passed s
        \<and> RepriceBuyOrders lim bidPrices bidVolumes s =
            (after_buy_insert bidPrices bids2 s, sent2 @ [buy_insert bidPrices s]))"
    by (rule RepriceBuyOrders_effect [where s = s and lim = lim and bidPrices = bidPrices
          and bidVolumes = bidVolumes]) blast
  let ?v = "buy_order_volume s"
  have keys: "map fst bids2 = map fst (mBids s)" using u by (rule unflag_same_keys)
  have res: "reserved bids2 = reserved (mBids s)" using u by (rule unflag_same_reserved)
  note b = ledger_bounds [OF assms(2)]
  have rb: "sint (mETFOrderPositionBuy s) = int (reserved (mBids s))"
    using assms(2) by (simp add: ledger_ok_def)
  have v: "sint ?v = (100 - sint (mETFPosition s)) div 5"
    unfolding buy_order_volume_def using b(1,2) by (rule buy_volume)
  then have v0: "0 \<le> sint ?v" and v40: "sint ?v \<le> 40" using b(1,2) by simp_all
  from r show ?thesis
  proof (elim disjE conjE)
    assume "RepriceBuyOrders lim bidPrices bidVolumes s = (s\<lparr>mBids := bids2\<rparr>, sent2)"
    then show ?thesis using assms(2) res by (simp add: ledger_ok_def)
  next
    assume pass: "buy_guard_passed s"
      and ins: "RepriceBuyOrders lim bidPrices bidVolumes s =
            (after_buy_insert bidPrices bids2 s, sent2 @ [buy_insert bidPrices s])"
    have "\<forall>k \<in> set (map fst bids2). unat k < unat (mNextMessageId s)"
      using assms(1) keys by (simp add: ids_fresh_def)
    then have fresh: "mNextMessageId s \<notin> set (map fst bids2)" by blast
    have guard: "sint (mETFPosition s) + sint (mETFOrderPositionBuy s) + sint ?v \<le> 100"
      using pass buy_guard [of "mETFPosition s" "mETFOrderPositionBuy s" ?v] b rb v0 v40
      by (simp add: buy_guard_passed_def)
    have rb': "sint (mETFOrderPositionBuy s + ?v) = sint (mETFOrderPositionBuy s) + sint ?v"
      using b rb v0 v40 by (subst sint_add_64) simp_all
    have lots: "int (unat ?v) = sint ?v" using v0 by (rule unat_of_sint_64)
    have "int (reserved (bids2 @ [(mNextMessageId s,
             \<lparr>price = new_bid_price bidPrices s, remainingVolume = ?v,
              filledVolume = 0, cancelling = False\<rparr>)]))
            = int (reserved (mBids s)) + sint ?v"
      using res lots by (simp add: reserved_append) (simp add: reserved_def)
    then show ?thesis
      using ins assms(2) guard rb' rb
      by (simp add: ledger_ok_def after_buy_insert_def update_fresh_key [OF fresh])
  qed
qed

text \<open>A well-formed status: the two differences the handler takes do not wrap, and what
  is released from the reserved volume covers what is filled.\<close>

lemma conserving_differences:
  assumes "conserving order f r" and "unat (remainingVolume order) \<le> 200"
  shows "0 \<le> sint (f - filledVolume order)"
    and "sint (f - filledVolume order) \<le> sint (remainingVolume order - r)"
    and "sint (remainingVolume order - r) \<le> 200"
    and "sint (remainingVolume order - r)
           = int (unat (remainingVolume order)) - int (unat r)"
proof -
  have le: "filledVolume order \<le> f"
    and sum: "unat f + unat r \<le> unat (filledVolume order) + unat (remainingVolume order)"
    using assms(1) by (simp_all add: conserving_def)
  have le': "unat (filledVolume order) \<le> unat f" using le by (simp add: word_le_nat_alt)
  then have r_le': "unat r \<le> unat (remainingVolume order)" using sum by simp
  then have r_le: "r \<le> remainingVolume order" by (simp add: word_le_nat_alt)
  have d: "unat (f - filledVolume order) = unat f - unat (filledVolume order)"
    using le by (rule unat_sub)
  have g: "unat (remainingVolume order - r) = unat (remainingVolume order) - unat r"
    using r_le by (rule unat_sub)
  have d_le_g: "unat (f - filledVolume order) \<le> unat (remainingVolume order - r)"
    using d g sum le' by linarith
  have g200: "unat (remainingVolume order - r) \<le> 200" using g assms(2) by linarith
  then have "unat (remainingVolume order - r) < 2 ^ 63" by simp
  then have sg: "sint (remainingVolume order - r) = int (unat (remainingVolume order - r))"
    by (rule sint_of_unat_64)
  have "unat (f - filledVolume order) \<le> 200" using d_le_g g200 by linarith
  then have "unat (f - filledVolume order) < 2 ^ 63" by simp
  then have sd: "sint (f - filledVolume order) = int (unat (f - filledVolume order))"
    by (rule sint_of_unat_64)
  show "0 \<le> sint (f - filledVolume order)" unfolding sd by linarith
  show "sint (f - filledVolume order) \<le> sint (remainingVolume order - r)"
    unfolding sd sg using d_le_g by linarith
  show "sint (remainingVolume order - r) \<le> 200" unfolding sg using g200 by linarith
  show "sint (remainingVolume order - r)
           = int (unat (remainingVolume order)) - int (unat r)"
    unfolding sg using g r_le' by linarith
qed

lemma reserved_after_status:
  assumes "distinct (map fst m)" and "map_of m k = Some order"
  shows "int (reserved (if r \<noteq> 0
                         then AList.update k (order\<lparr>remainingVolume := r, filledVolume := f\<rparr>) m
                         else AList.delete k m))
           = int (reserved m) - (int (unat (remainingVolume order)) - int (unat r))"
proof (cases "r = 0")
  case True
  have "int (reserved (AList.delete k m))
          = int (reserved m) - int (unat (remainingVolume order))"
    using reserved_delete_entry [OF assms] by linarith
  then show ?thesis using True by simp
next
  case False
  have "reserved (AList.update k (order\<lparr>remainingVolume := r, filledVolume := f\<rparr>) m)
          + unat (remainingVolume order) = reserved m + unat r"
    using reserved_update_entry [OF assms, of "order\<lparr>remainingVolume := r, filledVolume := f\<rparr>"]
    by simp
  then have "int (reserved (AList.update k (order\<lparr>remainingVolume := r, filledVolume := f\<rparr>) m))
          = int (reserved m) - (int (unat (remainingVolume order)) - int (unat r))"
    by linarith
  then show ?thesis using False by simp
qed

lemma status_sell_ledger:
  assumes "ids_fresh s" and "ledger_ok s" and "map_of (mAsks s) k = Some order"
      and "conserving order f r"
  shows "ledger_ok (fst (status_on_side lim True order k f r s))"
proof -
  note b = ledger_bounds [OF assms(2)]
  have rs: "sint (mETFOrderPositionSell s) = int (reserved (mAsks s))"
    using assms(2) by (simp add: ledger_ok_def)
  have d: "distinct (map fst (mAsks s))" using assms(1) by (simp add: ids_fresh_def)
  have small: "unat (remainingVolume order) \<le> 200"
    using entry_le_reserved [OF assms(3)] b(3) by linarith
  note c = conserving_differences [OF assms(4) small]
  have pos: "sint (mETFPosition s - (f - filledVolume order))
               = sint (mETFPosition s) - sint (f - filledVolume order)"
    using b c by (subst sint_sub_64) simp_all
  have res: "sint (mETFOrderPositionSell s - (remainingVolume order - r))
               = sint (mETFOrderPositionSell s) - sint (remainingVolume order - r)"
    using b c rs by (subst sint_sub_64) simp_all
  have res_new: "int (reserved (if r \<noteq> 0
                         then AList.update k (order\<lparr>remainingVolume := r, filledVolume := f\<rparr>) (mAsks s)
                         else AList.delete k (mAsks s)))
           = int (reserved (mAsks s)) - sint (remainingVolume order - r)"
    using reserved_after_status [OF d assms(3), of r f] c(4) by linarith
  have inv: "sint (mETFOrderPositionSell s) = int (reserved (mAsks s))"
    "sint (mETFOrderPositionBuy s) = int (reserved (mBids s))"
    "- 100 \<le> sint (mETFPosition s) - int (reserved (mAsks s))"
    "sint (mETFPosition s) + int (reserved (mBids s)) \<le> 100"
    using assms(2) by (simp_all add: ledger_ok_def)
  show ?thesis
    unfolding ledger_ok_def
    using inv pos res res_new c(1,2)
    by (simp add: status_on_sell_side)
qed

lemma status_buy_ledger:
  assumes "ids_fresh s" and "ledger_ok s" and "map_of (mBids s) k = Some order"
      and "conserving order f r"
  shows "ledger_ok (fst (status_on_side lim False order k f r s))"
proof -
  note b = ledger_bounds [OF assms(2)]
  have rs: "sint (mETFOrderPositionBuy s) = int (reserved (mBids s))"
    using assms(2) by (simp add: ledger_ok_def)
  have d: "distinct (map fst (mBids s))" using assms(1) by (simp add: ids_fresh_def)
  have small: "unat (remainingVolume order) \<le> 200"
    using entry_le_reserved [OF assms(3)] b(4) by linarith
  note c = conserving_differences [OF assms(4) small]
  have pos: "sint (mETFPosition s + (f - filledVolume order))
               = sint (mETFPosition s) + sint (f - filledVolume order)"
    using b c by (subst sint_add_64) simp_all
  have res: "sint (mETFOrderPositionBuy s - (remainingVolume order - r))
               = sint (mETFOrderPositionBuy s) - sint (remainingVolume order - r)"
    using b c rs by (subst sint_sub_64) simp_all
  have res_new: "int (reserved (if r \<noteq> 0
                         then AList.update k (order\<lparr>remainingVolume := r, filledVolume := f\<rparr>) (mBids s)
                         else AList.delete k (mBids s)))
           = int (reserved (mBids s)) - sint (remainingVolume order - r)"
    using reserved_after_status [OF d assms(3), of r f] c(4) by linarith
  have inv: "sint (mETFOrderPositionSell s) = int (reserved (mAsks s))"
    "sint (mETFOrderPositionBuy s) = int (reserved (mBids s))"
    "- 100 \<le> sint (mETFPosition s) - int (reserved (mAsks s))"
    "sint (mETFPosition s) + int (reserved (mBids s)) \<le> 100"
    using assms(2) by (simp_all add: ledger_ok_def)
  show ?thesis
    unfolding ledger_ok_def
    using inv pos res res_new c(1,2)
    by (simp add: status_on_buy_side)
qed

lemma status_ledger:
  assumes "ids_fresh s" and "ledger_ok s" and "status_well_formed s k f r"
  shows "ledger_ok (fst (OrderStatusMessageHandler lim k f r fees s))"
proof (cases "map_of (mAsks s) k")
  case (Some order)
  then have "conserving order f r"
    using assms(3) by (simp add: status_well_formed_def tracked_order_def)
  from status_sell_ledger [OF assms(1,2) Some this] Some
  show ?thesis by (simp add: OrderStatusMessageHandler_def)
next
  case None
  show ?thesis
  proof (cases "map_of (mBids s) k")
    case (Some order)
    then have "conserving order f r"
      using assms(3) None by (simp add: status_well_formed_def tracked_order_def)
    from status_buy_ledger [OF assms(1,2) Some this] Some None
    show ?thesis by (simp add: OrderStatusMessageHandler_def)
  next
    case none: None
    then show ?thesis using assms(2) None by (simp add: OrderStatusMessageHandler_def)
  qed
qed

lemma error_handled_as_status:
  assumes "error_event_ok s (Error k msg)"
  shows "status_well_formed s k 0 0"
  using assms
  by (simp add: status_well_formed_def conserving_def split: option.splits)

lemma reprice_sell_untouched:
  "mETFPosition (fst (RepriceSellOrders lim askPrices askVolumes s)) = mETFPosition s
   \<and> mETFOrderPositionBuy (fst (RepriceSellOrders lim askPrices askVolumes s)) = mETFOrderPositionBuy s
   \<and> mBids (fst (RepriceSellOrders lim askPrices askVolumes s)) = mBids s"
  by (rule RepriceSellOrders_effect [where s = s and lim = lim and askPrices = askPrices
        and askVolumes = askVolumes]) (auto simp: after_sell_insert_def)

lemma deliver_ledger:
  assumes "ids_fresh s" and "counts_ok s" and "ledger_ok s"
      and "status_event_ok s e" and "error_event_ok s e"
      and "unat (mNextMessageId s) + 2 < 2 ^ 64"
  shows "ledger_ok (fst (deliver lim e s))"
proof (cases e)
  case (OrderBook instrument sequenceNumber askPrices askVolumes bidPrices bidVolumes)
  let ?s1 = "s\<lparr>mOrderBookSequence := sequenceNumber\<rparr>"
  let ?s2 = "fst (RepriceSellOrders lim askPrices askVolumes ?s1)"
  let ?s3 = "fst (RepriceBuyOrders lim bidPrices bidVolumes ?s2)"
  have s1: "ids_fresh ?s1" "counts_ok ?s1" "unat (mNextMessageId ?s1) + 1 < 2 ^ 64"
    and l1: "ledger_ok ?s1"
    using assms by (simp_all add: ids_fresh_def counts_ok_def ledger_ok_def)
  have i2: "ids_fresh ?s2"
    using reprice_sell_keeps [OF s1, of lim askPrices askVolumes] by simp
  have l2: "ledger_ok ?s2" using s1(1) l1 by (rule reprice_sell_ledger)
  have l3: "ledger_ok ?s3" using i2 l2 by (rule reprice_buy_ledger)
  have recorded: "ledger_ok (s\<lparr>mMarketMaxBid := b, mMarketMinAsk := a\<rparr>)" for a b
    using assms(3) by (simp add: ledger_ok_def)
  have "deliver lim e s = (s\<lparr>mMarketMaxBid := bidPrices ! 0,
            mMarketMinAsk := (if askPrices ! 0 \<noteq> 0 then askPrices ! 0 else MAXIMUM_ASK lim)\<rparr>, [])
      \<or> deliver lim e s = (s, [])
      \<or> fst (deliver lim e s) = ?s3"
    by (simp add: OrderBook OrderBookMessageHandler_def Let_def split: prod.splits)
  then show ?thesis
    using recorded assms(3) l3 by auto
next
  case (OrderStatus k f r fees)
  then have "status_well_formed s k f r" using assms(4) by simp
  from status_ledger [OF assms(1,3) this, of lim fees]
  show ?thesis by (simp add: OrderStatus)
next
  case (Error k msg)
  then have "status_well_formed s k 0 0"
    using assms(5) error_handled_as_status by simp
  from status_ledger [OF assms(1,3) this, of lim 0] assms(3)
  show ?thesis by (simp add: Error ErrorMessageHandler_def)
next
  case (OrderFilled k p v)
  then show ?thesis using assms(3) by simp
next
  case (HedgeFilled k p v)
  then show ?thesis using assms(3) by simp
next
  case (TradeTicks instrument sequenceNumber askPrices askVolumes bidPrices bidVolumes)
  then show ?thesis using assms(3) by simp
qed

lemma run_ledger:
  assumes "ids_fresh s" and "counts_ok s" and "ledger_ok s"
      and "statuses_well_formed lim es s" and "errors_name_unfilled lim es s"
      and "unat (mNextMessageId s) + 2 * length es < 2 ^ 64"
  shows "ledger_ok (fst (run lim es s))"
  using assms
proof (induction es arbitrary: s)
  case Nil
  then show ?case by simp
next
  case (Cons e es)
  let ?s1 = "fst (deliver lim e s)"
  have ok: "status_event_ok s e" "error_event_ok s e"
    and rest: "statuses_well_formed lim es ?s1" "errors_name_unfilled lim es ?s1"
    using Cons.prems(4,5) by simp_all
  have step: "unat (mNextMessageId s) + 2 < 2 ^ 64" using Cons.prems(6) by simp
  from deliver_keeps [OF Cons.prems(1,2) step, of lim e]
  have s1: "ids_fresh ?s1" "counts_ok ?s1"
    and "unat (mNextMessageId ?s1) \<le> unat (mNextMessageId s) + 2"
    by simp_all
  then have bound: "unat (mNextMessageId ?s1) + 2 * length es < 2 ^ 64"
    using Cons.prems(6) by simp
  have l1: "ledger_ok ?s1"
    using Cons.prems(1,2,3) ok step by (rule deliver_ledger)
  from Cons.IH [OF s1 l1 rest bound] show ?case
    by (simp only: run_Cons_fst)
qed

text \<open>Every insert a book update sends has passed the placement guard of its side, taken
  on the members as they were when the update arrived.\<close>

lemma book_inserts_guarded:
  assumes "ledger_ok s"
      and "InsertOrder orderId side p v lifespan
             \<in> set (snd (OrderBookMessageHandler lim instrument sequenceNumber
                           askPrices askVolumes bidPrices bidVolumes s))"
  shows "(side = SELL \<longrightarrow>
            - 100 \<le> sint (mETFPosition s) - sint (mETFOrderPositionSell s) - sint v)
       \<and> (side = BUY \<longrightarrow>
            sint (mETFPosition s) + sint (mETFOrderPositionBuy s) + sint v \<le> 100)"
proof -
  let ?s1 = "s\<lparr>mOrderBookSequence := sequenceNumber\<rparr>"
  let ?s2 = "fst (RepriceSellOrders lim askPrices askVolumes ?s1)"
  let ?c = "InsertOrder orderId side p v lifespan"
  note b = ledger_bounds [OF assms(1)]
  have rs: "sint (mETFOrderPositionSell s) = int (reserved (mAsks s))"
    and rb: "sint (mETFOrderPositionBuy s) = int (reserved (mBids s))"
    using assms(1) by (simp_all add: ledger_ok_def)
  have same: "mETFPosition ?s2 = mETFPosition s" "mETFOrderPositionBuy ?s2 = mETFOrderPositionBuy s"
    using reprice_sell_untouched [of lim askPrices askVolumes ?s1] by simp_all
  have "snd (OrderBookMessageHandler lim instrument sequenceNumber
               askPrices askVolumes bidPrices bidVolumes s) = []
      \<or> snd (OrderBookMessageHandler lim instrument sequenceNumber
               askPrices askVolumes bidPrices bidVolumes s)
          = snd (RepriceSellOrders lim askPrices askVolumes ?s1)
            @ snd (RepriceBuyOrders lim bidPrices bidVolumes ?s2)"
    by (simp add: OrderBookMessageHandler_def Let_def split: prod.splits)
  then consider
      (sell) "?c \<in> set (snd (RepriceSellOrders lim askPrices askVolumes ?s1))"
    | (buy) "?c \<in> set (snd (RepriceBuyOrders lim bidPrices bidVolumes ?s2))"
    using assms(2) by auto
  then show ?thesis
  proof cases
    case sell
    let ?v = "sell_order_volume s"
    from reprice_sell_commands [OF sell]
    have c: "?c = sell_insert lim askPrices ?s1" and pass: "sell_guard_passed ?s1"
      by auto
    have side: "side = SELL" and v: "v = ?v"
      using c by (simp_all add: sell_insert_def sell_order_volume_def)
    have guard: "\<not> (mETFPosition s - mETFOrderPositionSell s - ?v) <s - POSITION_LIMIT"
      using pass by (simp add: sell_guard_passed_def sell_order_volume_def)
    have sv: "sint ?v = (sint (mETFPosition s) + 100) div 5"
      unfolding sell_order_volume_def using b(1,2) by (rule sell_volume)
    then have "0 \<le> sint ?v" and "sint ?v \<le> 40" using b(1,2) by simp_all
    then have "- 100 \<le> sint (mETFPosition s) - sint (mETFOrderPositionSell s) - sint ?v"
      using guard sell_guard [of "mETFPosition s" "mETFOrderPositionSell s" ?v] b rs by simp
    then show ?thesis using side v by simp
  next
    case buy
    let ?v = "buy_order_volume s"
    from reprice_buy_commands [OF buy]
    have c: "?c = buy_insert bidPrices ?s2" and pass: "buy_guard_passed ?s2"
      by auto
    have side: "side = BUY" and v: "v = ?v"
      using c by (simp_all add: buy_insert_def buy_order_volume_def same)
    have guard: "\<not> POSITION_LIMIT <s (mETFPosition s + mETFOrderPositionBuy s + ?v)"
      using pass by (simp add: buy_guard_passed_def buy_order_volume_def same)
    have sv: "sint ?v = (100 - sint (mETFPosition s)) div 5"
      unfolding buy_order_volume_def using b(1,2) by (rule buy_volume)
    then have "0 \<le> sint ?v" and "sint ?v \<le> 40" using b(1,2) by simp_all
    then have "sint (mETFPosition s) + sint (mETFOrderPositionBuy s) + sint ?v \<le> 100"
      using guard buy_guard [of "mETFPosition s" "mETFOrderPositionBuy s" ?v] b rb by simp
    then show ?thesis using side v by simp
  qed
qed

lemma initial_ledger_ok: "ledger_ok (initial_trader b a)"
  by (simp add: ledger_ok_def initial_trader_def reserved_def)

text \<open>
  The invariant of C1 where the defect above cannot act. The events are delivered in
  order to the initial trader; there are fewer than \<open>2^63\<close> of them; every status is well
  formed; every error names an order that is not tracked or has no fill recorded. Then the
  position is within the limit, also with all the reserved volume of either side filled,
  and every insert sent for a further book update has passed the placement guard of its
  side: \<open>netPosition - reservedSellVolume - orderVolume \<ge> -POSITION_LIMIT\<close> for a sell,
  \<open>netPosition + reservedBuyVolume + orderVolume \<le> POSITION_LIMIT\<close> for a buy.
\<close>

theorem position_within_limit:
  assumes "statuses_well_formed lim es (initial_trader maxBid minAsk)"
      and "errors_name_unfilled lim es (initial_trader maxBid minAsk)"
      and "length es < 2 ^ 63"
  shows "- 100 \<le> sint (mETFPosition (reached lim maxBid minAsk es))
       \<and> sint (mETFPosition (reached lim maxBid minAsk es)) \<le> 100
       \<and> - 100 \<le> sint (mETFPosition (reached lim maxBid minAsk es))
                    - sint (mETFOrderPositionSell (reached lim maxBid minAsk es))
       \<and> sint (mETFPosition (reached lim maxBid minAsk es))
           + sint (mETFOrderPositionBuy (reached lim maxBid minAsk es)) \<le> 100
       \<and> (\<forall>instrument sequenceNumber askPrices askVolumes bidPrices bidVolumes orderId side p v lifespan.
            InsertOrder orderId side p v lifespan
              \<in> set (snd (OrderBookMessageHandler lim instrument sequenceNumber
                            askPrices askVolumes bidPrices bidVolumes
                            (reached lim maxBid minAsk es)))
            \<longrightarrow> (side = SELL \<longrightarrow>
                   - 100 \<le> sint (mETFPosition (reached lim maxBid minAsk es))
                            - sint (mETFOrderPositionSell (reached lim maxBid minAsk es)) - sint v)
              \<and> (side = BUY \<longrightarrow>
                   sint (mETFPosition (reached lim maxBid minAsk es))
                     + sint (mETFOrderPositionBuy (reached lim maxBid minAsk es)) + sint v \<le> 100))"
proof -
  let ?s = "reached lim maxBid minAsk es"
  have "unat (mNextMessageId (initial_trader maxBid minAsk)) + 2 * length es < 2 ^ 64"
    using assms(3) by (simp add: initial_trader_def)
  from run_ledger [OF _ _ initial_ledger_ok assms(1,2) this] initial_trader_ok [of maxBid minAsk]
  have l: "ledger_ok ?s" by (simp add: reached_def)
  note b = ledger_bounds [OF l]
  have "- 100 \<le> sint (mETFPosition ?s) - sint (mETFOrderPositionSell ?s)"
    and "sint (mETFPosition ?s) + sint (mETFOrderPositionBuy ?s) \<le> 100"
    using l by (simp_all add: ledger_ok_def)
  then show ?thesis
    using b(1,2) book_inserts_guarded [OF l] by blast
qed

text \<open>After \<open>calm_events\<close> the position is -20 and nothing is reserved; a further FUTURE
  book inserts a sell order of 16 lots.\<close>

theorem position_within_limit_witness:
  "statuses_well_formed example_limits calm_events (initial_trader 0 0)
   \<and> errors_name_unfilled example_limits calm_events (initial_trader 0 0)
   \<and> length calm_events < 2 ^ 63
   \<and> InsertOrder 5 SELL 10200 16 GOOD_FOR_DAY
        \<in> set (snd (OrderBookMessageHandler example_limits FUTURE 2
                      [10200, 0, 0, 0, 0] [5, 0, 0, 0, 0] [9000, 0, 0, 0, 0] [5, 0, 0, 0, 0]
                      (reached example_limits 0 0 calm_events)))
   \<and> - 100 \<le> sint (mETFPosition (reached example_limits 0 0 calm_events))
   \<and> sint (mETFPosition (reached example_limits 0 0 calm_events)) \<le> 100
   \<and> - 100 \<le> sint (mETFPosition (reached example_limits 0 0 calm_events))
                - sint (mETFOrderPositionSell (reached example_limits 0 0 calm_events))
                - sint (16 :: slong)"
proof -
  have wf: "statuses_well_formed example_limits calm_events (initial_trader 0 0)"
    by code_simp
  have er: "errors_name_unfilled example_limits calm_events (initial_trader 0 0)"
    by code_simp
  have short: "length calm_events < 2 ^ 63" by (simp add: calm_events_def)
  have ins: "InsertOrder 5 SELL 10200 16 GOOD_FOR_DAY
        \<in> set (snd (OrderBookMessageHandler example_limits FUTURE 2
                      [10200, 0, 0, 0, 0] [5, 0, 0, 0, 0] [9000, 0, 0, 0, 0] [5, 0, 0, 0, 0]
                      (reached example_limits 0 0 calm_events)))"
    by code_simp
  from position_within_limit [OF wf er short] ins wf er short
  show ?thesis by blast
qed

end
